theory Spec2Isabelle
  imports Main "HOL-Library.Sublist"
begin

section \<open>Data model (main.go, "Data Structures")\<close>

text \<open>
  The Go structs become records with the fields' own names. Go's \<open>int\<close> is modelled as
  \<open>int\<close>: the program never does arithmetic on \<open>Status\<close>, \<open>Size\<close> or a port, it only
  stores and prints them.
\<close>

record SubdomainResult =
  Hostname :: string
  IP :: string
  Ports :: "int list"

record VulnerabilityResult =
  URL :: string
  Issue :: string
  Detail :: string

record FfufResult =
  Path :: string
  Status :: int
  Size :: int

record ScanResult =
  Subdomains :: "SubdomainResult list"
  VulnURLs :: "VulnerabilityResult list"
  FfufEntries :: "FfufResult list"
  AllURLs :: "string list"
  LogLines :: "string list"
  FinalReport :: string
  Running :: bool
  ProxyEnabled :: bool

section \<open>Library functions used by the program\<close>

subsection \<open>strings.Contains, strings.Split\<close>

text \<open>\<open>strings.Contains(s, substr)\<close>: \<open>substr\<close> occurs in \<open>s\<close> as a contiguous block.\<close>

fun Contains :: "string \<Rightarrow> string \<Rightarrow> bool" where
  "Contains [] substr = (substr = [])"
| "Contains (c # cs) substr = (prefix substr (c # cs) \<or> Contains cs substr)"

definition NL :: char where
  "NL = CHR 0x0A"

definition CR :: char where
  "CR = CHR 0x0D"

text \<open>
  \<open>strings.Split(s, "\n")\<close>: the pieces between newlines; a string without a newline
  (also the empty one) is one piece, and a trailing newline leaves an empty last piece.
\<close>

fun SplitNL :: "string \<Rightarrow> string list" where
  "SplitNL [] = [[]]"
| "SplitNL (c # cs) =
     (if c = NL then [] # SplitNL cs
      else (case SplitNL cs of [] \<Rightarrow> [[c]] | l # ls \<Rightarrow> (c # l) # ls))"

subsection \<open>bufio.Scanner with the default split function ScanLines\<close>

text \<open>
  \<open>bufio.NewScanner(strings.NewReader(output))\<close> followed by the loop
  \<open>for scanner.Scan() { line := scanner.Text() ... }\<close> hands out the lines of the text:
  \<^item> the text is cut at every newline; what follows the last newline is a line only when
    it is not empty;
  \<^item> one trailing carriage return is dropped from each line (\<open>dropCR\<close>);
  \<^item> the scanner's buffer holds at most \<open>bufio.MaxScanTokenSize = 64 * 1024\<close> bytes: at
    a line of 65536 bytes or more (before its newline) \<open>Scan\<close> returns false with
    \<open>ErrTooLong\<close>, and the loop ends there. None of the callers looks at
    \<open>scanner.Err()\<close>, so the rest of the text is dropped without a trace.
\<close>

definition MaxScanTokenSize :: nat where
  "MaxScanTokenSize = 64 * 1024"

definition dropCR :: "string \<Rightarrow> string" where
  "dropCR data = (if data \<noteq> [] \<and> last data = CR then butlast data else data)"

definition rawLines :: "string \<Rightarrow> string list" where
  "rawLines s = (let ps = SplitNL s in if last ps = [] then butlast ps else ps)"

definition scanLines :: "string \<Rightarrow> string list" where
  "scanLines s = map dropCR (takeWhile (\<lambda>l. length l < MaxScanTokenSize) (rawLines s))"

subsection \<open>The regular expression \<^verbatim>\<open>(http[s]?://[^\s]+)\<close>\<close>

text \<open>
  Go's \<open>\s\<close> is the class \<open>[\t\n\f\r ]\<close>. The expression is matched on bytes here; a
  byte of a multi-byte character is never one of these five, so the match is the same
  as on code points.
\<close>

definition isSpace :: "char \<Rightarrow> bool" where
  "isSpace c = (c = CHR 0x09 \<or> c = CHR 0x0A \<or> c = CHR 0x0C \<or> c = CHR 0x0D \<or> c = CHR 0x20)"

text \<open>\<open>://[^\s]+\<close> at the head of \<open>r\<close>: the number of bytes matched (greedy), if any.\<close>

definition matchTail :: "string \<Rightarrow> nat option" where
  "matchTail r =
     (if prefix ''://'' r then
        (let body = takeWhile (\<lambda>c. \<not> isSpace c) (drop 3 r)
         in if body = [] then None else Some (3 + length body))
      else None)"

text \<open>
  The whole expression anchored at the head of \<open>s\<close>: \<open>http\<close>, then \<open>[s]?\<close> tried first
  with the \<open>s\<close> and then without, then the tail. The result is the matched text.
\<close>

definition matchHere :: "string \<Rightarrow> string option" where
  "matchHere s =
     (if prefix ''http'' s then
        (let r = drop 4 s in
         case (if prefix ''s'' r then matchTail (drop 1 r) else None) of
           Some n \<Rightarrow> Some (take (5 + n) s)
         | None \<Rightarrow> (case matchTail r of Some n \<Rightarrow> Some (take (4 + n) s) | None \<Rightarrow> None))
      else None)"

text \<open>
  \<open>re.FindStringSubmatch(line)\<close>: the leftmost match. The model returns \<open>match[1]\<close>, the
  text of the only group (which is the whole match), and \<open>None\<close> where Go returns nil,
  so that \<open>len(match) > 1\<close> is \<open>\<noteq> None\<close>.
\<close>

fun FindStringSubmatch :: "string \<Rightarrow> string option" where
  "FindStringSubmatch [] = None"
| "FindStringSubmatch (c # cs) =
     (case matchHere (c # cs) of Some m \<Rightarrow> Some m | None \<Rightarrow> FindStringSubmatch cs)"

text \<open>
  What the expression matches, said without the matcher: a text starts a match when it
  begins with \<open>http://\<close> or \<open>https://\<close> followed by a byte that is not white space, and
  a line has a URL when such a text occurs in it.
\<close>

definition urlStart :: "string \<Rightarrow> bool" where
  "urlStart s = (\<exists>c. \<not> isSpace c \<and> (prefix (''http://'' @ [c]) s \<or> prefix (''https://'' @ [c]) s))"

definition hasURL :: "string \<Rightarrow> bool" where
  "hasURL line = (\<exists>c. \<not> isSpace c \<and>
      (Contains line (''http://'' @ [c]) \<or> Contains line (''https://'' @ [c])))"

section \<open>Parsers (parsers/dalfox\_parser.go, the sqlmap parser, and their copies in main.go)\<close>

definition sqlmapStep :: "VulnerabilityResult list \<Rightarrow> string \<Rightarrow> VulnerabilityResult list" where
  "sqlmapStep results line =
     (if Contains line ''is vulnerable'' then
        (case FindStringSubmatch line of
           Some m \<Rightarrow> results @ [\<lparr>URL = m, Issue = ''SQL Injection'', Detail = line\<rparr>]
         | None \<Rightarrow> results)
      else results)"

definition ParseSqlmapOutput :: "string \<Rightarrow> VulnerabilityResult list" where
  "ParseSqlmapOutput output = foldl sqlmapStep [] (scanLines output)"

definition dalfoxStep :: "VulnerabilityResult list \<Rightarrow> string \<Rightarrow> VulnerabilityResult list" where
  "dalfoxStep results line =
     (if Contains line ''[POC]'' then
        (case FindStringSubmatch line of
           Some m \<Rightarrow> results @ [\<lparr>URL = m, Issue = ''XSS'', Detail = line\<rparr>]
         | None \<Rightarrow> results)
      else results)"

definition ParseDalfoxOutput :: "string \<Rightarrow> VulnerabilityResult list" where
  "ParseDalfoxOutput output = foldl dalfoxStep [] (scanLines output)"


section \<open>Shared state, lock and effects (main.go)\<close>

text \<open>
  \<open>scanResult\<close> and \<open>scanMu\<close> are package-level variables. A \<open>World\<close> is what one
  goroutine's code acts on: the shared \<open>scanResult\<close>, whether this goroutine holds
  \<open>scanMu\<close>, and the trace of what it has done so far, in program order:
  \<^item> \<open>EvLock\<close>, \<open>EvUnlock s\<close>: \<open>scanMu.Lock()\<close> and \<open>scanMu.Unlock()\<close>; the unlock carries
    the \<open>scanResult\<close> it releases, which is what a reader that takes the lock next sees;
  \<^item> \<open>EvRead f h\<close>, \<open>EvWrite f h\<close>: a read or a write of field \<open>f\<close> of \<open>scanResult\<close>, with
    \<open>h\<close> telling whether the goroutine held \<open>scanMu\<close> at that moment;
  \<^item> \<open>EvExec\<close>, \<open>EvLookupIP\<close>, \<open>EvHTTPGet\<close>, \<open>EvWriteFile\<close>: a subprocess, a DNS lookup,
    an HTTP request, a file written.
  No path of the program locks \<open>scanMu\<close> while holding it.
\<close>

datatype field =
  F_Subdomains | F_VulnURLs | F_FfufEntries | F_AllURLs
  | F_LogLines | F_FinalReport | F_Running | F_ProxyEnabled

datatype event =
  EvLock
  | EvUnlock ScanResult
  | EvRead field bool
  | EvWrite field bool
  | EvExec string "string list"
  | EvLookupIP string
  | EvHTTPGet string
  | EvWriteFile string

record World =
  scanResult :: ScanResult
  holding :: bool
  trace :: "event list"

text \<open>
  Everything outside the program answers through an \<open>Env\<close>. Each answer may depend on
  the moment of the call (the length of the trace so far), so the same command or lookup
  may answer differently at different times.
  \<^item> \<open>runCommand\<close>: \<open>cmd.CombinedOutput()\<close>, the output and the error text if any;
  \<^item> \<open>lookupIP\<close>: \<open>net.LookupIP\<close>, \<open>None\<close> on error, else for each address its
    \<open>ip.String()\<close> and whether \<open>ip.To4() != nil\<close>;
  \<^item> \<open>shodanGet\<close>: the request of \<open>ShodanLookup\<close> to the given URL; \<open>Some p\<close> when it returns
    no error and a non-nil \<open>data\<close>, with \<open>p\<close> the \<open>%v\<close> text of \<open>data["ports"]\<close>;
  \<^item> \<open>now\<close>: \<open>time.Now().Format(time.RFC1123)\<close>; \<open>timestamp\<close>: the start time in the
    layout \<open>20060102_150405\<close>;
  \<^item> \<open>getenv\<close>: \<open>os.Getenv\<close>; \<open>mkdir\<close>: the error of \<open>os.Mkdir\<close>, if any;
  \<^item> \<open>mapRange\<close>: the order in which \<open>range\<close> walks a map with the given keys (Go leaves
    it unspecified).
\<close>

record Env =
  runCommand :: "nat \<Rightarrow> string \<Rightarrow> string list \<Rightarrow> string \<times> string option"
  lookupIP :: "nat \<Rightarrow> string \<Rightarrow> (string \<times> bool) list option"
  shodanGet :: "nat \<Rightarrow> string \<Rightarrow> string option"
  now :: "nat \<Rightarrow> string"
  timestamp :: string
  getenv :: "string \<Rightarrow> string"
  mkdir :: "string \<Rightarrow> string option"
  mapRange :: "nat \<Rightarrow> string list \<Rightarrow> string list"

definition lock :: "World \<Rightarrow> World" where
  "lock w = w\<lparr>holding := True, trace := trace w @ [EvLock]\<rparr>"

definition unlock :: "World \<Rightarrow> World" where
  "unlock w = w\<lparr>holding := False, trace := trace w @ [EvUnlock (scanResult w)]\<rparr>"

definition rd :: "field \<Rightarrow> World \<Rightarrow> World" where
  "rd f w = w\<lparr>trace := trace w @ [EvRead f (holding w)]\<rparr>"

definition wr :: "field \<Rightarrow> (ScanResult \<Rightarrow> ScanResult) \<Rightarrow> World \<Rightarrow> World" where
  "wr f upd w = w\<lparr>scanResult := upd (scanResult w), trace := trace w @ [EvWrite f (holding w)]\<rparr>"

definition ext :: "event \<Rightarrow> World \<Rightarrow> World" where
  "ext e w = w\<lparr>trace := trace w @ [e]\<rparr>"

definition allFields :: "field list" where
  "allFields = [F_Subdomains, F_VulnURLs, F_FfufEntries, F_AllURLs,
                F_LogLines, F_FinalReport, F_Running, F_ProxyEnabled]"

text \<open>Reading or assigning the whole struct touches every field.\<close>

definition rdAll :: "World \<Rightarrow> World" where
  "rdAll w = w\<lparr>trace := trace w @ map (\<lambda>f. EvRead f (holding w)) allFields\<rparr>"

definition wrAll :: "ScanResult \<Rightarrow> World \<Rightarrow> World" where
  "wrAll r w = w\<lparr>scanResult := r, trace := trace w @ map (\<lambda>f. EvWrite f (holding w)) allFields\<rparr>"

subsection \<open>Utility functions\<close>

definition AppendLog :: "string \<Rightarrow> World \<Rightarrow> World" where
  "AppendLog line w =
     unlock (wr F_LogLines (\<lambda>r. r\<lparr>LogLines := LogLines r @ [line]\<rparr>) (rd F_LogLines (lock w)))"

text \<open>
  \<open>filepath.Join\<close> also cleans the path lexically; paths are only labels of file events
  here, so the cleaning is left out.
\<close>

definition pathJoin :: "string \<Rightarrow> string \<Rightarrow> string" where
  "pathJoin dir name = dir @ ''/'' @ name"

text \<open>\<open>WriteLines\<close> creates the file; every caller in main.go drops the error it returns.\<close>

definition WriteLines :: "string list \<Rightarrow> string \<Rightarrow> World \<Rightarrow> World" where
  "WriteLines lines filePath w = ext (EvWriteFile filePath) w"

text \<open>\<open>uniqueStrings\<close>: the map \<open>seen\<close> is a function to \<open>bool\<close>, false where a key is absent.\<close>

definition uniqueStep :: "(string \<Rightarrow> bool) \<times> string list \<Rightarrow> string \<Rightarrow> (string \<Rightarrow> bool) \<times> string list" where
  "uniqueStep st s = (case st of (seen, res) \<Rightarrow>
     if \<not> seen s then (seen(s := True), res @ [s]) else (seen, res))"

definition uniqueStrings :: "string list \<Rightarrow> string list" where
  "uniqueStrings input = snd (foldl uniqueStep (\<lambda>_. False, []) input)"

definition RunCommand :: "Env \<Rightarrow> string \<Rightarrow> string list \<Rightarrow> World \<Rightarrow> (string \<times> string option) \<times> World" where
  "RunCommand env name args w = (runCommand env (length (trace w)) name args, ext (EvExec name args) w)"

text \<open>Decimal text of an integer (\<open>%d\<close>), of a slice of integers (\<open>%v\<close>), of a bool (\<open>%v\<close>).\<close>

fun showNat :: "nat \<Rightarrow> string" where
  "showNat n = (if n < 10 then [char_of (48 + n)] else showNat (n div 10) @ [char_of (48 + n mod 10)])"

definition showInt :: "int \<Rightarrow> string" where
  "showInt i = (if i < 0 then ''-'' @ showNat (nat (- i)) else showNat (nat i))"

fun joinSpace :: "string list \<Rightarrow> string" where
  "joinSpace [] = []"
| "joinSpace [x] = x"
| "joinSpace (x # y # ys) = x @ '' '' @ joinSpace (y # ys)"

definition showInts :: "int list \<Rightarrow> string" where
  "showInts xs = ''['' @ joinSpace (map showInt xs) @ '']''"

definition showBool :: "bool \<Rightarrow> string" where
  "showBool b = (if b then ''true'' else ''false'')"

section \<open>Scanning pipeline (main.go)\<close>

definition logErr :: "string \<Rightarrow> string option \<Rightarrow> World \<Rightarrow> World" where
  "logErr pre err w = (case err of Some e \<Rightarrow> AppendLog (pre @ e) w | None \<Rightarrow> w)"

definition addSubdomain :: "World \<Rightarrow> string \<Rightarrow> World" where
  "addSubdomain w s =
     (if s \<noteq> [] then
        AppendLog (''[*] Discovered subdomain: '' @ s)
          (wr F_Subdomains
             (\<lambda>r. r\<lparr>Subdomains := Subdomains r @ [\<lparr>Hostname = s, IP = ''192.0.2.1'', Ports = [80, 443]\<rparr>]\<rparr>)
             (rd F_Subdomains w))
      else w)"

definition EnumerateSubdomains :: "Env \<Rightarrow> string \<Rightarrow> string \<Rightarrow> string \<Rightarrow> World \<Rightarrow> World" where
  "EnumerateSubdomains env target chaosKey outDir w0 =
     (let w1 = AppendLog ''[*] Starting subdomain enumeration...'' w0;
          ((assetOut, err1), w2) = RunCommand env ''assetfinder'' [target] w1;
          w3 = logErr ''[!] assetfinder error: '' err1 w2;
          ((amassOut, err2), w4) = RunCommand env ''amass''
             [''enum'', ''-d'', target, ''-passive'', ''-norecursive'', ''-noalts'', ''-timeout'', ''60''] w3;
          w5 = logErr ''[!] amass error: '' err2 w4;
          allSubs = uniqueStrings (SplitNL assetOut @ SplitNL amassOut);
          w6 = foldl addSubdomain w5 allSubs
      in WriteLines allSubs (pathJoin outDir ''subdomains.txt'') w6)"

definition isHostAlive :: "Env \<Rightarrow> string \<Rightarrow> World \<Rightarrow> bool \<times> World" where
  "isHostAlive env host w = (lookupIP env (length (trace w)) host \<noteq> None, ext (EvLookupIP host) w)"

definition checkHost :: "Env \<Rightarrow> string list \<times> World \<Rightarrow> SubdomainResult \<Rightarrow> string list \<times> World" where
  "checkHost env st s = (case st of (live, w) \<Rightarrow>
     (let (alive, w1) = isHostAlive env (Hostname s) w
      in if alive then (live @ [Hostname s], AppendLog (''[*] Live: '' @ Hostname s) w1)
         else (live, w1)))"

definition CheckLiveHosts :: "Env \<Rightarrow> string \<Rightarrow> World \<Rightarrow> World" where
  "CheckLiveHosts env outDir w0 =
     (let w1 = AppendLog ''[*] Checking live hosts...'' w0;
          w2 = rd F_Subdomains w1;
          (live, w3) = foldl (checkHost env) ([], w2) (Subdomains (scanResult w2))
      in WriteLines live (pathJoin outDir ''live_hosts.txt'') w3)"

text \<open>
  \<open>urlSet\<close> is a \<open>map[string]struct{}\<close>: the model keeps its keys, each once.
  \<open>urlSet[line] = struct{}{}\<close> adds a key that is not there yet.
\<close>

definition setKey :: "string list \<Rightarrow> string \<Rightarrow> string list" where
  "setKey urlSet line = (if line \<in> set urlSet then urlSet else urlSet @ [line])"

definition addLines :: "string list \<Rightarrow> string \<Rightarrow> string list" where
  "addLines urlSet out = foldl (\<lambda>m line. if line \<noteq> [] then setKey m line else m) urlSet (scanLines out)"

definition collectURLs :: "string \<Rightarrow> string list \<Rightarrow> (string \<times> string option) \<times> World \<Rightarrow> string list \<times> World" where
  "collectURLs tool urlSet res = (case res of ((out, err), w) \<Rightarrow>
     (case err of
        None \<Rightarrow> (addLines urlSet out, w)
      | Some e \<Rightarrow> (urlSet, AppendLog (''[!] '' @ tool @ '' error: '' @ e) w)))"

definition RunURLScan :: "Env \<Rightarrow> string \<Rightarrow> string \<Rightarrow> World \<Rightarrow> World" where
  "RunURLScan env target outDir w0 =
     (let w1 = AppendLog ''[*] Running URL scanning tools (hakrawler, gau, waybackurls)...'' w0;
          (urlSet1, w2) = collectURLs ''hakrawler'' []
             (RunCommand env ''hakrawler'' [''-url'', ''http://'' @ target, ''-depth'', ''2'', ''-plain''] w1);
          (urlSet2, w3) = collectURLs ''gau'' urlSet1
             (RunCommand env ''gau'' [''--subs'', target] w2);
          (urlSet3, w4) = collectURLs ''waybackurls'' urlSet2
             (RunCommand env ''bash'' [''-c'', ''echo '' @ target @ '' | waybackurls''] w3);
          urls = uniqueStrings (mapRange env (length (trace w4)) urlSet3);
          w5 = wr F_AllURLs (\<lambda>r. r\<lparr>AllURLs := urls\<rparr>) w4;
          w6 = WriteLines urls (pathJoin outDir ''urls.txt'') w5
      in AppendLog (''[*] URL scan complete, found '' @ showNat (length urls) @ '' URLs'') w6)"

definition RunFuzzing :: "Env \<Rightarrow> string \<Rightarrow> string \<Rightarrow> World \<Rightarrow> World" where
  "RunFuzzing env target outDir w0 =
     (let w1 = AppendLog ''[*] Running ffuf fuzzing...'' w0;
          ffufOut = pathJoin outDir ''ffuf_results.json'';
          ((out, err), w2) = RunCommand env ''ffuf''
             [''-w'', ''/usr/share/seclists/Discovery/Web-Content/api/api-endpoints-res.txt:FUZZ'',
              ''-u'', ''http://'' @ target @ ''/FUZZ'',
              ''-of'', ''json'', ''-o'', ffufOut] w1
      in case err of
           Some e \<Rightarrow> AppendLog (''[!] ffuf error: '' @ e) w2
         | None \<Rightarrow>
             AppendLog ''[*] ffuf fuzzing completed.''
               (wr F_FfufEntries
                  (\<lambda>r. r\<lparr>FfufEntries := [\<lparr>Path = ''/admin'', Status = 200, Size = 512\<rparr>]\<rparr>) w2))"

text \<open>
  \<open>RunPreVulnTools\<close> assigns each \<open>RunCommand\<close> result to the blank identifier: output and
  error are both dropped.
\<close>

definition RunPreVulnTools :: "Env \<Rightarrow> string \<Rightarrow> string \<Rightarrow> World \<Rightarrow> World" where
  "RunPreVulnTools env target outDir w0 =
     (let w1 = AppendLog ''[*] Running JSFINDER, ParamSpider, and ParamWizard...'' w0;
          epFile = pathJoin outDir ''endpoints.txt'';
          w2 = snd (RunCommand env ''JSFinder'' [''-u'', target, ''-o'', epFile] w1);
          w3 = snd (RunCommand env ''paramspider'' [''--domain'', target, ''--level'', ''2''] w2);
          w4 = snd (RunCommand env ''paramwizard'' [''-t'', target] w3)
      in AppendLog ''[*] Pre-vulnerability endpoint discovery complete.'' w4)"

definition addVulns :: "(string \<Rightarrow> VulnerabilityResult list) \<Rightarrow> (string \<times> string option) \<times> World \<Rightarrow> World" where
  "addVulns parse res = (case res of ((out, err), w) \<Rightarrow>
     (case err of
        None \<Rightarrow> wr F_VulnURLs (\<lambda>r. r\<lparr>VulnURLs := VulnURLs r @ parse out\<rparr>) (rd F_VulnURLs w)
      | Some e \<Rightarrow> w))"

definition RunVulnerabilityScans :: "Env \<Rightarrow> string \<Rightarrow> string \<Rightarrow> World \<Rightarrow> World" where
  "RunVulnerabilityScans env target outDir w0 =
     (let w1 = AppendLog ''[*] Starting vulnerability scanning...'' w0;
          w2 = addVulns ParseSqlmapOutput (RunCommand env ''sqlmap'' [''-u'', target, ''--batch''] w1);
          w3 = addVulns ParseDalfoxOutput (RunCommand env ''dalfox'' [''url'', target] w2);
          w4 = AppendLog ''[*] Vulnerability scanning complete.'' w3;
          vulnFile = pathJoin outDir ''vulnerabilities.json'';
          w5 = rd F_VulnURLs w4
      in ext (EvWriteFile vulnFile) w5)"

definition ShodanLookup :: "Env \<Rightarrow> string \<Rightarrow> string \<Rightarrow> World \<Rightarrow> string option \<times> World" where
  "ShodanLookup env ip apiKey w =
     (if apiKey = [] then (None, w)
      else (let url = ''https://api.shodan.io/shodan/host/'' @ ip @ ''?key='' @ apiKey
            in (shodanGet env (length (trace w)) url, ext (EvHTTPGet url) w)))"

definition resolveHost :: "Env \<Rightarrow> string list \<times> World \<Rightarrow> SubdomainResult \<Rightarrow> string list \<times> World" where
  "resolveHost env st s = (case st of (ips, w) \<Rightarrow>
     (case lookupIP env (length (trace w)) (Hostname s) of
        None \<Rightarrow> (ips, ext (EvLookupIP (Hostname s)) w)
      | Some ipsFound \<Rightarrow>
          (ips @ map fst (filter snd ipsFound), ext (EvLookupIP (Hostname s)) w)))"

definition enrichIP :: "Env \<Rightarrow> string \<Rightarrow> World \<Rightarrow> string \<Rightarrow> World" where
  "enrichIP env apiKey w ip =
     (let (res, w1) = ShodanLookup env ip apiKey w
      in case res of
           Some ports \<Rightarrow> AppendLog (''[*] Shodan for '' @ ip @ '': '' @ ports) w1
         | None \<Rightarrow> w1)"

definition EnrichWithShodan :: "Env \<Rightarrow> string \<Rightarrow> string \<Rightarrow> World \<Rightarrow> World" where
  "EnrichWithShodan env apiKey outDir w0 =
     (let w1 = AppendLog ''[*] Starting Shodan enrichment...'' w0;
          w2 = rd F_Subdomains w1;
          (ips, w3) = foldl (resolveHost env) ([], w2) (Subdomains (scanResult w2));
          w4 = foldl (enrichIP env apiKey) w3 (uniqueStrings ips);
          w5 = ext (EvWriteFile (pathJoin outDir ''enrichment.json'')) w4
      in AppendLog ''[*] Shodan enrichment complete.'' w5)"

text \<open>utils.PersistResults (utils/file\_utils.go) gets \<open>scanResult\<close> by value and writes it.\<close>

definition PersistResults :: "string \<Rightarrow> World \<Rightarrow> World" where
  "PersistResults outDir w = ext (EvWriteFile (pathJoin outDir ''summary.json'')) (rdAll w)"

subsection \<open>The main pipeline\<close>

text \<open>The seven stage calls of the goroutine started by \<open>main\<close>, in its order.\<close>

definition stages :: "Env \<Rightarrow> string \<Rightarrow> string \<Rightarrow> World \<Rightarrow> World" where
  "stages env target outDir w0 =
     (let w1 = EnumerateSubdomains env target (getenv env ''PDCHAOS_KEY'') outDir w0;
          w2 = CheckLiveHosts env outDir w1;
          w3 = RunURLScan env target outDir w2;
          w4 = RunFuzzing env target outDir w3;
          w5 = RunPreVulnTools env target outDir w4;
          w6 = RunVulnerabilityScans env target outDir w5;
          key = getenv env ''SHODAN_API_KEY''
      in if key \<noteq> [] then EnrichWithShodan env key outDir w6 else w6)"

definition finalize :: "Env \<Rightarrow> string \<Rightarrow> World \<Rightarrow> World" where
  "finalize env target w0 =
     (let w1 = lock w0;
          w2 = wr F_Running (\<lambda>r. r\<lparr>Running := False\<rparr>) w1;
          w3 = wr F_FinalReport
                 (\<lambda>r. r\<lparr>FinalReport := ''Final report for '' @ target @ '' generated at ''
                                          @ now env (length (trace w2))\<rparr>) w2
      in unlock w3)"

definition worker :: "Env \<Rightarrow> string \<Rightarrow> string \<Rightarrow> World \<Rightarrow> World" where
  "worker env target outDir w0 =
     (let w1 = AppendLog ''========== Starting Scan =========='' w0;
          w2 = stages env target outDir w1;
          w3 = finalize env target w2;
          w4 = AppendLog ''========== Scan Complete =========='' w3
      in PersistResults outDir w4)"

text \<open>
  The package-level variables before \<open>main\<close> runs (Go's zero values), and the
  initialisation \<open>main\<close> does under the lock.
\<close>

definition zeroScanResult :: ScanResult where
  "zeroScanResult = \<lparr>Subdomains = [], VulnURLs = [], FfufEntries = [], AllURLs = [],
     LogLines = [], FinalReport = [], Running = False, ProxyEnabled = False\<rparr>"

definition zeroWorld :: World where
  "zeroWorld = \<lparr>scanResult = zeroScanResult, holding = False, trace = []\<rparr>"

definition initScan :: "World \<Rightarrow> World" where
  "initScan w = unlock (wrAll (zeroScanResult\<lparr>Running := True, LogLines := [], ProxyEnabled := False\<rparr>) (lock w))"

text \<open>
  \<open>main\<close> up to the end of the pipeline goroutine: \<open>None\<close> when it returns before the
  pipeline starts (no target argument, or the output directory cannot be created).
  \<open>args\<close> is \<open>os.Args\<close>.
\<close>

definition main_pipeline :: "Env \<Rightarrow> string list \<Rightarrow> World option" where
  "main_pipeline env args =
     (if length args < 2 then None
      else (let target = args ! 1;
                outDir = pathJoin ''.'' (target @ ''_'' @ timestamp env)
            in case mkdir env outDir of
                 Some e \<Rightarrow> None
               | None \<Rightarrow> Some (worker env target outDir (initScan zeroWorld))))"

section \<open>Terminal interface (main.go, startTUI)\<close>

text \<open>
  The text of each view and the page in front. \<open>Clear\<close> empties a view, \<open>Fprintf\<close> to a
  view appends to it, \<open>SetText\<close> replaces its text.
\<close>

record TUI =
  subdomainsView :: string
  vulnsView :: string
  ffufView :: string
  reportView :: string
  proxyView :: string
  consoleView :: string
  page :: string

definition updateProxyView :: "bool \<Rightarrow> TUI \<Rightarrow> TUI" where
  "updateProxyView enabled t =
     (if enabled then t\<lparr>proxyView := ''[green::b]Proxy Active: http://127.0.0.1:8080''\<rparr>
      else t\<lparr>proxyView := ''[red::b]Proxy Disabled''\<rparr>)"

definition initTUI :: TUI where
  "initTUI = updateProxyView False
     \<lparr>subdomainsView = [], vulnsView = [], ffufView = [], reportView = [],
      proxyView = [], consoleView = [], page = ''Subdomains''\<rparr>"

text \<open>The branch of the key handler for \<open>p\<close> and \<open>P\<close>.\<close>

definition toggleProxy :: "World \<times> TUI \<Rightarrow> World \<times> TUI" where
  "toggleProxy st = (case st of (w0, t0) \<Rightarrow>
     (let w1 = lock w0;
          w2 = wr F_ProxyEnabled (\<lambda>r. r\<lparr>ProxyEnabled := \<not> ProxyEnabled r\<rparr>) (rd F_ProxyEnabled w1);
          w3 = unlock w2;
          w4 = rd F_ProxyEnabled w3;
          t1 = updateProxyView (ProxyEnabled (scanResult w4)) t0;
          w5 = rd F_ProxyEnabled w4
      in (AppendLog (''[*] Proxy enabled: '' @ showBool (ProxyEnabled (scanResult w5))) w5, t1)))"

definition inputCapture :: "char \<Rightarrow> World \<times> TUI \<Rightarrow> World \<times> TUI" where
  "inputCapture rune st = (case st of (w, t) \<Rightarrow>
     if rune = CHR ''1'' then (w, t\<lparr>page := ''Subdomains''\<rparr>)
     else if rune = CHR ''2'' then (w, t\<lparr>page := ''Vulnerabilities''\<rparr>)
     else if rune = CHR ''3'' then (w, t\<lparr>page := ''FFUF''\<rparr>)
     else if rune = CHR ''4'' then (w, t\<lparr>page := ''Report''\<rparr>)
     else if rune = CHR ''5'' then (w, t\<lparr>page := ''Proxy''\<rparr>)
     else if rune = CHR ''p'' \<or> rune = CHR ''P'' then toggleProxy (w, t)
     else (w, t))"

definition fmtSubdomain :: "SubdomainResult \<Rightarrow> string" where
  "fmtSubdomain sub = Hostname sub @ '' - IP: '' @ IP sub @ '' | Ports: '' @ showInts (Ports sub) @ [NL]"

definition fmtVuln :: "VulnerabilityResult \<Rightarrow> string" where
  "fmtVuln v = ''[yellow::b]'' @ Issue v @ ''[-:-:-]: '' @ URL v @ [NL]"

definition fmtFfuf :: "FfufResult \<Rightarrow> string" where
  "fmtFfuf f = Path f @ '' (Status: '' @ showInt (Status f) @ '', Size: '' @ showInt (Size f) @ '')'' @ [NL]"

text \<open>
  One round of the first updater goroutine (between two sleeps of two seconds). The test
  of \<open>scanResult.Running\<close> is made before the lock is taken.
\<close>

definition paneTick :: "World \<times> TUI \<Rightarrow> World \<times> TUI" where
  "paneTick st = (case st of (w0, t0) \<Rightarrow>
     (let w1 = rd F_Running w0
      in if \<not> Running (scanResult w1) then
           (let t1 = t0\<lparr>subdomainsView := []\<rparr>;
                w2 = lock w1;
                w3 = rd F_Subdomains w2;
                t2 = foldl (\<lambda>t sub. t\<lparr>subdomainsView := subdomainsView t @ fmtSubdomain sub\<rparr>) t1
                       (Subdomains (scanResult w3));
                t3 = t2\<lparr>vulnsView := []\<rparr>;
                w4 = rd F_VulnURLs w3;
                t4 = foldl (\<lambda>t v. t\<lparr>vulnsView := vulnsView t @ fmtVuln v\<rparr>) t3
                       (VulnURLs (scanResult w4));
                t5 = t4\<lparr>ffufView := []\<rparr>;
                w5 = rd F_FfufEntries w4;
                t6 = foldl (\<lambda>t f. t\<lparr>ffufView := ffufView t @ fmtFfuf f\<rparr>) t5
                       (FfufEntries (scanResult w5));
                w6 = rd F_FinalReport w5;
                t7 = t6\<lparr>reportView := FinalReport (scanResult w6)\<rparr>
            in (unlock w6, t7))
         else (w1, t0)))"

text \<open>
  \<open>strings.ToLower\<close> on the bytes \<open>A\<close> to \<open>Z\<close>. Beyond ASCII Go lowers other letters too;
  none of them becomes a letter of \<open>vulnerable\<close> or \<open>error\<close>, so the two tests below are
  the same.
\<close>

definition toLowerChar :: "char \<Rightarrow> char" where
  "toLowerChar c = (let n = (of_char c :: nat) in if 65 \<le> n \<and> n \<le> 90 then char_of (n + 32) else c)"

definition ToLower :: "string \<Rightarrow> string" where
  "ToLower s = map toLowerChar s"

definition fmtLogLine :: "string \<Rightarrow> string" where
  "fmtLogLine line =
     (if Contains (ToLower line) ''vulnerable'' \<or> Contains (ToLower line) ''error''
      then ''[red::b]'' @ line @ ''[-:-:-]'' @ [NL]
      else line @ [NL])"

text \<open>One round of the second updater goroutine (between two sleeps of one second).\<close>

definition consoleTick :: "World \<times> TUI \<Rightarrow> World \<times> TUI" where
  "consoleTick st = (case st of (w0, t0) \<Rightarrow>
     (let t1 = t0\<lparr>consoleView := []\<rparr>;
          w1 = lock w0;
          w2 = rd F_LogLines w1;
          t2 = foldl (\<lambda>t line. t\<lparr>consoleView := consoleView t @ fmtLogLine line\<rparr>) t1
                 (LogLines (scanResult w2))
      in (unlock w2, t2)))"

section \<open>The scanners package (scanners/subdomain\_scanner.go, scanners/fuzzing\_scanner.go)\<close>

text \<open>
  These variants of two stages get the result by pointer and a logging callback. The
  model acts on the result and on the list of messages handed to \<open>logFn\<close>, in order; the
  callback is taken to do nothing else to the result. What the stage gets from outside
  are parameters: the results of the commands, of the file operations, and the repository's
  helpers \<open>utils.UniqueStrings\<close> and \<open>utils.RunCommand\<close>, whose source is not part of the
  files at hand, as well as \<open>json.Unmarshal\<close> into an \<open>FfufResult\<close>.
\<close>

definition scanners_addSubdomain :: "ScanResult \<times> string list \<Rightarrow> string \<Rightarrow> ScanResult \<times> string list" where
  "scanners_addSubdomain st s = (case st of (result, logs) \<Rightarrow>
     if s \<noteq> [] then
       (result\<lparr>Subdomains := Subdomains result @ [\<lparr>Hostname = s, IP = ''192.0.2.1'', Ports = [80, 443]\<rparr>]\<rparr>,
        logs @ [''[*] Discovered subdomain: '' @ s])
     else (result, logs))"

definition scanners_logErr :: "string \<Rightarrow> string option \<Rightarrow> string list \<Rightarrow> string list" where
  "scanners_logErr pre err logs = (case err of Some e \<Rightarrow> logs @ [pre @ e] | None \<Rightarrow> logs)"

definition scanners_EnumerateSubdomains ::
  "(string list \<Rightarrow> string list) \<Rightarrow> string \<times> string option \<Rightarrow> string \<times> string option \<Rightarrow> string option
     \<Rightarrow> ScanResult \<times> string list \<Rightarrow> ScanResult \<times> string list" where
  "scanners_EnumerateSubdomains UniqueStrings assetRes amassRes writeErr st = (case st of (result, logs0) \<Rightarrow>
     (let logs1 = logs0 @ [''[*] Starting subdomain enumeration...''];
          (assetOut, err1) = assetRes;
          logs2 = scanners_logErr ''[!] assetfinder error: '' err1 logs1;
          (amassOut, err2) = amassRes;
          logs3 = scanners_logErr ''[!] amass error: '' err2 logs2;
          allSubs = UniqueStrings (SplitNL assetOut @ SplitNL amassOut);
          (result1, logs4) = foldl scanners_addSubdomain (result, logs3) allSubs
      in (result1, scanners_logErr ''[!] Failed to write subdomains: '' writeErr logs4)))"

definition ffufStep :: "(string \<Rightarrow> FfufResult option) \<Rightarrow> FfufResult list \<Rightarrow> string \<Rightarrow> FfufResult list" where
  "ffufStep unmarshal ffufResults line =
     (case unmarshal line of Some entry \<Rightarrow> ffufResults @ [entry] | None \<Rightarrow> ffufResults)"

definition scanners_RunFuzzing ::
  "(string \<Rightarrow> FfufResult option) \<Rightarrow> string option \<Rightarrow> string + string
     \<Rightarrow> ScanResult \<times> string list \<Rightarrow> ScanResult \<times> string list" where
  "scanners_RunFuzzing unmarshal ffufErr fileRes st = (case st of (result, logs0) \<Rightarrow>
     (let logs1 = logs0 @ [''[*] Running ffuf fuzzing...'']
      in case ffufErr of
           Some e \<Rightarrow> (result, logs1 @ [''[!] ffuf error: '' @ e])
         | None \<Rightarrow>
             (case fileRes of
                Inl e \<Rightarrow> (result, logs1 @ [''[!] Failed to read ffuf output: '' @ e])
              | Inr data \<Rightarrow>
                  (let ffufResults = foldl (ffufStep unmarshal) [] (scanLines data)
                   in (result\<lparr>FfufEntries := ffufResults\<rparr>,
                       logs1 @ [''[*] ffuf fuzzing completed, found '' @ showNat (length ffufResults)
                                @ '' entries''])))))"

section \<open>Notions used in the statements\<close>

text \<open>The names of the commands run, in order.\<close>

fun execs :: "event list \<Rightarrow> string list" where
  "execs [] = []"
| "execs (EvExec name args # es) = name # execs es"
| "execs (e # es) = execs es"

text \<open>
  What the run does to the outside, in order: commands run, names looked up, requests
  sent, files written.
\<close>

fun isEffect :: "event \<Rightarrow> bool" where
  "isEffect (EvExec name args) = True"
| "isEffect (EvLookupIP host) = True"
| "isEffect (EvHTTPGet url) = True"
| "isEffect (EvWriteFile filePath) = True"
| "isEffect e = False"

definition effects :: "event list \<Rightarrow> event list" where
  "effects tr = filter isEffect tr"

text \<open>
  What the first six stages do to the outside, in the order of the code, for a target, an
  output directory and the hosts of the subdomains found by the first stage.
\<close>

definition scanEffects :: "string \<Rightarrow> string \<Rightarrow> string list \<Rightarrow> event list" where
  "scanEffects target outDir hosts =
     [EvExec ''assetfinder'' [target],
      EvExec ''amass'' [''enum'', ''-d'', target, ''-passive'', ''-norecursive'', ''-noalts'', ''-timeout'', ''60''],
      EvWriteFile (pathJoin outDir ''subdomains.txt'')]
     @ map EvLookupIP hosts
     @ [EvWriteFile (pathJoin outDir ''live_hosts.txt''),
        EvExec ''hakrawler'' [''-url'', ''http://'' @ target, ''-depth'', ''2'', ''-plain''],
        EvExec ''gau'' [''--subs'', target],
        EvExec ''bash'' [''-c'', ''echo '' @ target @ '' | waybackurls''],
        EvWriteFile (pathJoin outDir ''urls.txt''),
        EvExec ''ffuf''
          [''-w'', ''/usr/share/seclists/Discovery/Web-Content/api/api-endpoints-res.txt:FUZZ'',
           ''-u'', ''http://'' @ target @ ''/FUZZ'',
           ''-of'', ''json'', ''-o'', pathJoin outDir ''ffuf_results.json''],
        EvExec ''JSFinder'' [''-u'', target, ''-o'', pathJoin outDir ''endpoints.txt''],
        EvExec ''paramspider'' [''--domain'', target, ''--level'', ''2''],
        EvExec ''paramwizard'' [''-t'', target],
        EvExec ''sqlmap'' [''-u'', target, ''--batch''],
        EvExec ''dalfox'' [''url'', target],
        EvWriteFile (pathJoin outDir ''vulnerabilities.json'')]"

text \<open>
  The commands whose failure the code logs, each with the name its log line uses:
  \<open>AppendLog("[!] <name> error: " + err.Error())\<close>.
\<close>

definition errorLabel :: "string \<Rightarrow> string option" where
  "errorLabel name =
     (if name = ''assetfinder'' then Some ''assetfinder''
      else if name = ''amass'' then Some ''amass''
      else if name = ''hakrawler'' then Some ''hakrawler''
      else if name = ''gau'' then Some ''gau''
      else if name = ''bash'' then Some ''waybackurls''
      else if name = ''ffuf'' then Some ''ffuf''
      else None)"

text \<open>
  \<open>failuresLogged env w\<close>: every command of that list that the trace of \<open>w\<close> records
  as run and that failed (the answer at the moment of the run carries an error) has
  its error line in the log of \<open>w\<close>.
\<close>

definition failuresLogged :: "Env \<Rightarrow> World \<Rightarrow> bool" where
  "failuresLogged env w =
     (\<forall>n name args l e.
        n < length (trace w) \<and> trace w ! n = EvExec name args
        \<and> errorLabel name = Some l \<and> snd (runCommand env n name args) = Some e
        \<longrightarrow> ''[!] '' @ l @ '' error: '' @ e \<in> set (LogLines (scanResult w)))"

text \<open>
  The IPv4 addresses that lookups of the hosts \<open>hs\<close>, made one after the other from the
  moment \<open>n\<close> on, are answered with.
\<close>

fun lookupAnswers :: "Env \<Rightarrow> nat \<Rightarrow> string list \<Rightarrow> string list" where
  "lookupAnswers env n [] = []"
| "lookupAnswers env n (h # hs) =
     (case lookupIP env n h of None \<Rightarrow> [] | Some ipsFound \<Rightarrow> map fst (filter snd ipsFound))
     @ lookupAnswers env (Suc n) hs"

text \<open>The states released by the unlocks, in order: what readers that take the lock can see.\<close>

fun snapshots :: "event list \<Rightarrow> ScanResult list" where
  "snapshots [] = []"
| "snapshots (EvUnlock s # es) = s # snapshots es"
| "snapshots (e # es) = snapshots es"

fun isWrite :: "event \<Rightarrow> bool" where
  "isWrite (EvWrite f h) = True"
| "isWrite e = False"

fun writesTo :: "field \<Rightarrow> event \<Rightarrow> bool" where
  "writesTo f (EvWrite g h) = (f = g)"
| "writesTo f e = False"

text \<open>An access of a field of \<open>scanResult\<close> made while the goroutine does not hold \<open>scanMu\<close>.\<close>

fun unguarded :: "event \<Rightarrow> bool" where
  "unguarded (EvRead f h) = (\<not> h)"
| "unguarded (EvWrite f h) = (\<not> h)"
| "unguarded e = False"

text \<open>The number of steps from true to false in a sequence of values of a flag.\<close>

fun falls :: "bool list \<Rightarrow> nat" where
  "falls (a # b # bs) = (if a \<and> \<not> b then 1 else 0) + falls (b # bs)"
| "falls bs = 0"

text \<open>
  An event that leaves \<open>Running\<close> and \<open>FinalReport\<close> as they are (\<open>run\<close> and \<open>rep\<close>): not a
  write to either, and if an unlock then one that releases a state with these values.
\<close>

fun quietEv :: "bool \<Rightarrow> string \<Rightarrow> event \<Rightarrow> bool" where
  "quietEv run rep (EvWrite f h) = (f \<noteq> F_Running \<and> f \<noteq> F_FinalReport)"
| "quietEv run rep (EvUnlock s) = (Running s = run \<and> FinalReport s = rep)"
| "quietEv run rep e = True"

text \<open>
  \<open>frame w w'\<close>: from \<open>w\<close> to \<open>w'\<close> the trace was extended by quiet events, \<open>Running\<close>,
  \<open>FinalReport\<close> and \<open>ProxyEnabled\<close> are unchanged and the log was only appended to.
\<close>

definition frame :: "World \<Rightarrow> World \<Rightarrow> bool" where
  "frame w w' =
     (Running (scanResult w') = Running (scanResult w)
      \<and> FinalReport (scanResult w') = FinalReport (scanResult w)
      \<and> ProxyEnabled (scanResult w') = ProxyEnabled (scanResult w)
      \<and> prefix (LogLines (scanResult w)) (LogLines (scanResult w'))
      \<and> (\<exists>t. trace w' = trace w @ t
              \<and> list_all (quietEv (Running (scanResult w)) (FinalReport (scanResult w))) t))"

section \<open>Sample environments\<close>

text \<open>
  \<open>envQuiet\<close>: every command exits successfully and prints nothing, no host resolves, no
  key is set. \<open>envAsset\<close>: the same, except that assetfinder prints one host.
  \<open>envOverlap\<close>: the same, except that the three URL tools print lines they share.
  \<open>envFail\<close>: every command fails with \<open>exit status 1\<close>.
  \<open>envPartial\<close>: assetfinder prints one host and then fails with \<open>exit status 1\<close>, every
  other command succeeds and prints nothing, every host resolves to one IPv4 address, the
  Shodan key is set and no request to Shodan is answered.
\<close>

definition envQuiet :: Env where
  "envQuiet = \<lparr>runCommand = (\<lambda>n name args. ([], None)), lookupIP = (\<lambda>n host. None),
     shodanGet = (\<lambda>n url. None), now = (\<lambda>n. ''Mon, 02 Jan 2006 15:04:05 UTC''),
     timestamp = ''20060102_150405'', getenv = (\<lambda>name. []), mkdir = (\<lambda>dir. None),
     mapRange = (\<lambda>n keys. keys)\<rparr>"

definition envAsset :: Env where
  "envAsset = envQuiet\<lparr>runCommand :=
     (\<lambda>n name args. if name = ''assetfinder'' then (''a.example.com'', None) else ([], None))\<rparr>"

definition envOverlap :: Env where
  "envOverlap = envQuiet\<lparr>runCommand :=
     (\<lambda>n name args.
        if name = ''hakrawler'' then (''http://a/'' @ [NL] @ ''http://b/'' @ [NL] @ ''http://a/'' @ [NL], None)
        else if name = ''gau'' then (''http://b/'' @ [CR, NL] @ ''http://c/'', None)
        else if name = ''bash'' then (''http://c/'' @ [NL] @ ''http://a/'' @ [NL], None)
        else ([], None))\<rparr>"

definition envFail :: Env where
  "envFail = envQuiet\<lparr>runCommand := (\<lambda>n name args. ([], Some ''exit status 1''))\<rparr>"

definition envPartial :: Env where
  "envPartial = envQuiet\<lparr>
     runCommand := (\<lambda>n name args.
        if name = ''assetfinder'' then (''a.example.com'', Some ''exit status 1'') else ([], None)),
     lookupIP := (\<lambda>n host. Some [(''192.0.2.7'', True)]),
     getenv := (\<lambda>name. if name = ''SHODAN_API_KEY'' then ''k'' else [])\<rparr>"

text \<open>
  Two sample states of the shared result: a scan that is still running and has found one
  subdomain, and the same scan once it has ended.
\<close>

definition worldRunning :: World where
  "worldRunning = \<lparr>scanResult = zeroScanResult\<lparr>
       Subdomains := [\<lparr>Hostname = ''a.example.com'', IP = ''192.0.2.1'', Ports = [80, 443]\<rparr>],
       Running := True\<rparr>,
     holding = False, trace = []\<rparr>"

definition worldDone :: World where
  "worldDone = \<lparr>scanResult = zeroScanResult\<lparr>
       Subdomains := [\<lparr>Hostname = ''a.example.com'', IP = ''192.0.2.1'', Ports = [80, 443]\<rparr>],
       FinalReport := ''Final report for example.com'',
       Running := False\<rparr>,
     holding = False, trace = []\<rparr>"


section \<open>Properties of the parsers\<close>

subsection \<open>The matcher and the expression\<close>

lemma matchTail_Some_iff:
  "matchTail r \<noteq> None \<longleftrightarrow> (\<exists>c. \<not> isSpace c \<and> prefix (''://'' @ [c]) r)"
proof (cases "prefix ''://'' r")
  case False
  then show ?thesis by (auto simp: matchTail_def prefix_def)
next
  case True
  then obtain t where r: "r = ''://'' @ t" by (auto simp: prefix_def)
  show ?thesis
  proof (cases t)
    case Nil
    then show ?thesis using r by (simp add: matchTail_def prefix_def)
  next
    case (Cons d ds)
    then show ?thesis using r by (auto simp: matchTail_def prefix_def)
  qed
qed

lemma matchHere_Some_iff: "matchHere s \<noteq> None \<longleftrightarrow> urlStart s"
proof (cases "prefix ''http'' s")
  case False
  then show ?thesis by (auto simp: matchHere_def urlStart_def prefix_def)
next
  case True
  then obtain r where s: "s = ''http'' @ r" by (auto simp: prefix_def)
  show ?thesis
  proof (cases r)
    case Nil
    then show ?thesis using s by (simp add: matchHere_def urlStart_def matchTail_def)
  next
    case (Cons d ds)
    show ?thesis
    proof (cases "d = CHR ''s''")
      case True
      have "matchTail r = None" using Cons True by (simp add: matchTail_def)
      then have "matchHere s \<noteq> None \<longleftrightarrow> matchTail ds \<noteq> None"
        using s Cons True by (auto simp: matchHere_def Let_def split: option.splits)
      also have "\<dots> \<longleftrightarrow> urlStart s"
        unfolding matchTail_Some_iff urlStart_def using s Cons True by simp
      finally show ?thesis .
    next
      case False
      then have "matchHere s \<noteq> None \<longleftrightarrow> matchTail r \<noteq> None"
        using s Cons by (auto simp: matchHere_def Let_def split: option.splits)
      also have "\<dots> \<longleftrightarrow> urlStart s"
        unfolding matchTail_Some_iff urlStart_def using s Cons False by auto
      finally show ?thesis .
    qed
  qed
qed

lemma FindStringSubmatch_Some_iff:
  "FindStringSubmatch l \<noteq> None \<longleftrightarrow> (\<exists>p s. l = p @ s \<and> urlStart s)"
proof (induction l)
  case Nil
  then show ?case by (simp add: urlStart_def)
next
  case (Cons c cs)
  have "FindStringSubmatch (c # cs) \<noteq> None \<longleftrightarrow> urlStart (c # cs) \<or> FindStringSubmatch cs \<noteq> None"
    using matchHere_Some_iff[of "c # cs"] by (auto split: option.splits)
  also have "\<dots> \<longleftrightarrow> urlStart (c # cs) \<or> (\<exists>p s. cs = p @ s \<and> urlStart s)"
    using Cons.IH by simp
  also have "\<dots> \<longleftrightarrow> (\<exists>p s. c # cs = p @ s \<and> urlStart s)"
    by (auto simp: Cons_eq_append_conv) 
  finally show ?case .
qed

lemma Contains_iff: "Contains s sub \<longleftrightarrow> (\<exists>p q. s = p @ sub @ q)"
proof (induction s)
  case Nil
  then show ?case by auto
next
  case (Cons c cs)
  have "Contains (c # cs) sub \<longleftrightarrow> prefix sub (c # cs) \<or> (\<exists>p q. cs = p @ sub @ q)"
    using Cons.IH by simp
  also have "\<dots> \<longleftrightarrow> (\<exists>p q. c # cs = p @ sub @ q)"
    by (auto simp: prefix_def Cons_eq_append_conv)
  finally show ?case .
qed

lemma FindStringSubmatch_hasURL: "FindStringSubmatch l \<noteq> None \<longleftrightarrow> hasURL l"
proof
  assume "FindStringSubmatch l \<noteq> None"
  then obtain p s c where l: "l = p @ s" and c: "\<not> isSpace c"
    and s: "prefix (''http://'' @ [c]) s \<or> prefix (''https://'' @ [c]) s"
    unfolding FindStringSubmatch_Some_iff urlStart_def by blast
  from s show "hasURL l"
  proof
    assume "prefix (''http://'' @ [c]) s"
    then obtain q where "s = (''http://'' @ [c]) @ q" unfolding prefix_def by blast
    then have "Contains l (''http://'' @ [c])" unfolding Contains_iff using l by blast
    then show ?thesis unfolding hasURL_def using c by blast
  next
    assume "prefix (''https://'' @ [c]) s"
    then obtain q where "s = (''https://'' @ [c]) @ q" unfolding prefix_def by blast
    then have "Contains l (''https://'' @ [c])" unfolding Contains_iff using l by blast
    then show ?thesis unfolding hasURL_def using c by blast
  qed
next
  assume "hasURL l"
  then obtain c where c: "\<not> isSpace c"
    and s: "Contains l (''http://'' @ [c]) \<or> Contains l (''https://'' @ [c])"
    unfolding hasURL_def by blast
  from s have "\<exists>p s. l = p @ s \<and> urlStart s"
  proof
    assume "Contains l (''http://'' @ [c])"
    then obtain p q where "l = p @ (''http://'' @ [c]) @ q" unfolding Contains_iff by blast
    moreover have "urlStart ((''http://'' @ [c]) @ q)" unfolding urlStart_def prefix_def using c by blast
    ultimately show ?thesis by blast
  next
    assume "Contains l (''https://'' @ [c])"
    then obtain p q where "l = p @ (''https://'' @ [c]) @ q" unfolding Contains_iff by blast
    moreover have "urlStart ((''https://'' @ [c]) @ q)" unfolding urlStart_def prefix_def using c by blast
    ultimately show ?thesis by blast
  qed
  then show "FindStringSubmatch l \<noteq> None" unfolding FindStringSubmatch_Some_iff .
qed

lemma dalfoxStep_append: "dalfoxStep acc l = acc @ dalfoxStep [] l"
  by (simp add: dalfoxStep_def split: option.splits)

lemma foldl_dalfoxStep: "foldl dalfoxStep acc ls = acc @ concat (map (dalfoxStep []) ls)"
proof (induction ls arbitrary: acc)
  case Nil
  show ?case by simp
next
  case (Cons l ls)
  show ?case using Cons.IH[of "dalfoxStep acc l"] dalfoxStep_append[of acc l] by simp
qed

lemma takeWhile_all: "\<forall>x\<in>set xs. P x \<Longrightarrow> takeWhile P xs = xs"
  by (induction xs) auto

lemma scanLines_all:
  "\<forall>l\<in>set (rawLines output). length l < MaxScanTokenSize \<Longrightarrow> scanLines output = map dropCR (rawLines output)"
  by (simp add: scanLines_def takeWhile_all)

lemma sqlmapStep_append: "sqlmapStep acc l = acc @ sqlmapStep [] l"
  by (simp add: sqlmapStep_def split: option.splits)

lemma foldl_sqlmapStep: "foldl sqlmapStep acc ls = acc @ concat (map (sqlmapStep []) ls)"
proof (induction ls arbitrary: acc)
  case Nil
  show ?case by simp
next
  case (Cons l ls)
  show ?case using Cons.IH[of "sqlmapStep acc l"] sqlmapStep_append[of acc l] by simp
qed

lemma concat_map_filter_skip:
  "(\<And>x. \<not> P x \<Longrightarrow> f x = []) \<Longrightarrow> concat (map f (filter P xs)) = concat (map f xs)"
  by (induction xs) auto

lemma SplitNL_append: "NL \<notin> set xs \<Longrightarrow> SplitNL (xs @ NL # ys) = xs # SplitNL ys"
  by (induction xs) auto

subsection \<open>The sqlmap parser on the example line\<close>

text \<open>
  Claim C6, as the code has it. When the line
  \<open>[12:00:00] [INFO] GET parameter 'id' is vulnerable. http://example.com/page?id=1\<close>
  is the single line carrying sqlmap's marker \<open>is vulnerable\<close> among the lines the scanner
  hands out (the text may be that line alone, or have other lines around it that do not
  carry the marker), \<open>ParseSqlmapOutput\<close> returns exactly one record: its URL is
  \<open>http://example.com/page?id=1\<close>, its issue is \<open>SQL Injection\<close>, its detail is the line.
  The scanner hands out every line of the text when no line is 65536 bytes long or
  longer.
\<close>

theorem ParseSqlmapOutput_example:
  "(filter (\<lambda>l. Contains l ''is vulnerable'') (scanLines output) = [''[12:00:00] [INFO] GET parameter 'id' is vulnerable. http://example.com/page?id=1'']
      \<longrightarrow> ParseSqlmapOutput output =
           [\<lparr>URL = ''http://example.com/page?id=1'', Issue = ''SQL Injection'', Detail = ''[12:00:00] [INFO] GET parameter 'id' is vulnerable. http://example.com/page?id=1''\<rparr>])
   \<and> ((\<forall>l\<in>set (rawLines output). length l < MaxScanTokenSize) \<longrightarrow>
        scanLines output = map dropCR (rawLines output))"
proof (intro conjI impI)
  assume a: "filter (\<lambda>l. Contains l ''is vulnerable'') (scanLines output) = [''[12:00:00] [INFO] GET parameter 'id' is vulnerable. http://example.com/page?id=1'']"
  have skip: "\<not> Contains x ''is vulnerable'' \<Longrightarrow> sqlmapStep [] x = []" for x
    by (simp add: sqlmapStep_def)
  have "ParseSqlmapOutput output = concat (map (sqlmapStep []) (scanLines output))"
    using foldl_sqlmapStep[of "[]" "scanLines output"] by (simp add: ParseSqlmapOutput_def)
  also have "\<dots> = concat (map (sqlmapStep []) (filter (\<lambda>l. Contains l ''is vulnerable'') (scanLines output)))"
    using concat_map_filter_skip[of "\<lambda>l. Contains l ''is vulnerable''" "sqlmapStep []" "scanLines output"] skip
    by simp
  also have "\<dots> = sqlmapStep [] ''[12:00:00] [INFO] GET parameter 'id' is vulnerable. http://example.com/page?id=1''"
    unfolding a by simp
  also have "\<dots> = [\<lparr>URL = ''http://example.com/page?id=1'', Issue = ''SQL Injection'', Detail = ''[12:00:00] [INFO] GET parameter 'id' is vulnerable. http://example.com/page?id=1''\<rparr>]"
    by (simp add: sqlmapStep_def matchHere_def matchTail_def isSpace_def)
  finally show "ParseSqlmapOutput output =
           [\<lparr>URL = ''http://example.com/page?id=1'', Issue = ''SQL Injection'', Detail = ''[12:00:00] [INFO] GET parameter 'id' is vulnerable. http://example.com/page?id=1''\<rparr>]" .
next
  assume "\<forall>l\<in>set (rawLines output). length l < MaxScanTokenSize"
  then show "scanLines output = map dropCR (rawLines output)" by (rule scanLines_all)
qed

theorem ParseSqlmapOutput_example_witness:
  "rawLines (''sqlmap starting'' @ [CR, NL] @ ''[12:00:00] [INFO] GET parameter 'id' is vulnerable. http://example.com/page?id=1'' @ [CR, NL] @ ''done http://example.com/'' @ [NL]) =
     [''sqlmap starting'' @ [CR], ''[12:00:00] [INFO] GET parameter 'id' is vulnerable. http://example.com/page?id=1'' @ [CR], ''done http://example.com/'']
   \<and> scanLines (''sqlmap starting'' @ [CR, NL] @ ''[12:00:00] [INFO] GET parameter 'id' is vulnerable. http://example.com/page?id=1'' @ [CR, NL] @ ''done http://example.com/'' @ [NL]) =
     [''sqlmap starting'', ''[12:00:00] [INFO] GET parameter 'id' is vulnerable. http://example.com/page?id=1'', ''done http://example.com/'']
   \<and> ParseSqlmapOutput (''sqlmap starting'' @ [CR, NL] @ ''[12:00:00] [INFO] GET parameter 'id' is vulnerable. http://example.com/page?id=1'' @ [CR, NL] @ ''done http://example.com/'' @ [NL]) =
     [\<lparr>URL = ''http://example.com/page?id=1'', Issue = ''SQL Injection'', Detail = ''[12:00:00] [INFO] GET parameter 'id' is vulnerable. http://example.com/page?id=1''\<rparr>]"
proof -
  let ?out = "''sqlmap starting'' @ [CR, NL] @ ''[12:00:00] [INFO] GET parameter 'id' is vulnerable. http://example.com/page?id=1'' @ [CR, NL] @ ''done http://example.com/'' @ [NL]"
  note th = ParseSqlmapOutput_example[of ?out]
  have r: "rawLines ?out = [''sqlmap starting'' @ [CR], ''[12:00:00] [INFO] GET parameter 'id' is vulnerable. http://example.com/page?id=1'' @ [CR], ''done http://example.com/'']"
    by (simp add: rawLines_def NL_def CR_def)
  have b: "\<forall>l\<in>set (rawLines ?out). length l < MaxScanTokenSize"
    unfolding r by (simp add: MaxScanTokenSize_def)
  have "scanLines ?out = map dropCR (rawLines ?out)" using th b by blast
  then have s: "scanLines ?out = [''sqlmap starting'', ''[12:00:00] [INFO] GET parameter 'id' is vulnerable. http://example.com/page?id=1'', ''done http://example.com/'']"
    unfolding r by (simp add: dropCR_def CR_def)
  have f: "filter (\<lambda>l. Contains l ''is vulnerable'') (scanLines ?out) = [''[12:00:00] [INFO] GET parameter 'id' is vulnerable. http://example.com/page?id=1'']"
    unfolding s by simp
  have p: "ParseSqlmapOutput ?out =
     [\<lparr>URL = ''http://example.com/page?id=1'', Issue = ''SQL Injection'', Detail = ''[12:00:00] [INFO] GET parameter 'id' is vulnerable. http://example.com/page?id=1''\<rparr>]"
    using th f by blast
  show ?thesis using r s p by blast
qed

text \<open>
  The claim as it is written ("any input text that contains the single line") fails
  when the line follows a line of 65536 bytes: the text below has the example line as its
  only line with the marker, and the parser returns nothing.
\<close>

theorem ParseSqlmapOutput_long_line_counterexample:
  "SplitNL (replicate 65536 (CHR ''a'') @ NL # ''[12:00:00] [INFO] GET parameter 'id' is vulnerable. http://example.com/page?id=1'') = [replicate 65536 (CHR ''a''), ''[12:00:00] [INFO] GET parameter 'id' is vulnerable. http://example.com/page?id=1'']
   \<and> Contains ''[12:00:00] [INFO] GET parameter 'id' is vulnerable. http://example.com/page?id=1'' ''is vulnerable''
   \<and> FindStringSubmatch ''[12:00:00] [INFO] GET parameter 'id' is vulnerable. http://example.com/page?id=1'' = Some ''http://example.com/page?id=1''
   \<and> ParseSqlmapOutput (replicate 65536 (CHR ''a'') @ NL # ''[12:00:00] [INFO] GET parameter 'id' is vulnerable. http://example.com/page?id=1'') = []"
proof -
  have s: "SplitNL (replicate 65536 (CHR ''a'') @ NL # ''[12:00:00] [INFO] GET parameter 'id' is vulnerable. http://example.com/page?id=1'') = [replicate 65536 (CHR ''a''), ''[12:00:00] [INFO] GET parameter 'id' is vulnerable. http://example.com/page?id=1'']"
    by (subst SplitNL_append) (simp_all add: NL_def)
  have p: "ParseSqlmapOutput (replicate 65536 (CHR ''a'') @ NL # ''[12:00:00] [INFO] GET parameter 'id' is vulnerable. http://example.com/page?id=1'') = []"
    unfolding ParseSqlmapOutput_def scanLines_def rawLines_def s
    by (simp add: MaxScanTokenSize_def)
  have f: "FindStringSubmatch ''[12:00:00] [INFO] GET parameter 'id' is vulnerable. http://example.com/page?id=1'' = Some ''http://example.com/page?id=1''"
    by (simp add: matchHere_def matchTail_def isSpace_def)
  have c: "Contains ''[12:00:00] [INFO] GET parameter 'id' is vulnerable. http://example.com/page?id=1'' ''is vulnerable''" by simp
  show ?thesis using s c f p by blast
qed

subsection \<open>The dalfox parser, line by line\<close>

text \<open>
  Claim C7, as the code has it. For every text, the records of \<open>ParseDalfoxOutput\<close> are,
  in order, what each line handed out by the scanner yields: exactly one record with the
  issue \<open>XSS\<close> when the line contains the marker \<open>[POC]\<close> and has a URL, and nothing
  otherwise (no record, no error). The scanner hands out every line of the text when no
  line is 65536 bytes long or longer.
\<close>

theorem ParseDalfoxOutput_per_line:
  "ParseDalfoxOutput output =
     concat (map (\<lambda>line. if Contains line ''[POC]'' \<and> hasURL line
                          then [\<lparr>URL = the (FindStringSubmatch line), Issue = ''XSS'', Detail = line\<rparr>]
                          else []) (scanLines output))
   \<and> ((\<forall>l\<in>set (rawLines output). length l < MaxScanTokenSize) \<longrightarrow>
        scanLines output = map dropCR (rawLines output))"
proof -
  have "dalfoxStep [] = (\<lambda>line. if Contains line ''[POC]'' \<and> hasURL line
                          then [\<lparr>URL = the (FindStringSubmatch line), Issue = ''XSS'', Detail = line\<rparr>]
                          else [])"
  proof (rule ext)
    fix line
    show "dalfoxStep [] line = (if Contains line ''[POC]'' \<and> hasURL line
                          then [\<lparr>URL = the (FindStringSubmatch line), Issue = ''XSS'', Detail = line\<rparr>]
                          else [])"
      using FindStringSubmatch_hasURL[of line] by (auto simp: dalfoxStep_def split: option.splits)
  qed
  then show ?thesis
    using foldl_dalfoxStep[of "[]" "scanLines output"] scanLines_all[of "output"]
    by (simp add: ParseDalfoxOutput_def)
qed


theorem ParseDalfoxOutput_per_line_witness:
  "ParseDalfoxOutput (''[POC] http://a/?q=1'' @ [CR, NL] @ ''see http://b'' @ [NL]) =
     [\<lparr>URL = ''http://a/?q=1'', Issue = ''XSS'', Detail = ''[POC] http://a/?q=1''\<rparr>]
   \<and> rawLines (''[POC] http://a/?q=1'' @ [CR, NL] @ ''see http://b'' @ [NL]) =
       [''[POC] http://a/?q=1'' @ [CR], ''see http://b'']
   \<and> scanLines (''[POC] http://a/?q=1'' @ [CR, NL] @ ''see http://b'' @ [NL]) = [''[POC] http://a/?q=1'', ''see http://b'']"
proof -
  have r: "rawLines (''[POC] http://a/?q=1'' @ [CR, NL] @ ''see http://b'' @ [NL]) = [''[POC] http://a/?q=1'' @ [CR], ''see http://b'']"
    by (simp add: rawLines_def NL_def CR_def)
  have a: "\<forall>l\<in>set (rawLines (''[POC] http://a/?q=1'' @ [CR, NL] @ ''see http://b'' @ [NL])). length l < MaxScanTokenSize"
    unfolding r by (simp add: MaxScanTokenSize_def)
  have h: "\<not> Contains ''see http://b'' ''[POC]''" by simp
  have f: "FindStringSubmatch ''[POC] http://a/?q=1'' = Some ''http://a/?q=1''"
    by (simp add: matchHere_def matchTail_def isSpace_def)
  have c: "Contains ''[POC] http://a/?q=1'' ''[POC]''" by simp
  have u: "hasURL ''[POC] http://a/?q=1''" using FindStringSubmatch_hasURL[of "''[POC] http://a/?q=1''"] f by simp
  from ParseDalfoxOutput_per_line[of "''[POC] http://a/?q=1'' @ [CR, NL] @ ''see http://b'' @ [NL]"] a
  have s: "scanLines (''[POC] http://a/?q=1'' @ [CR, NL] @ ''see http://b'' @ [NL]) = map dropCR (rawLines (''[POC] http://a/?q=1'' @ [CR, NL] @ ''see http://b'' @ [NL]))"
    by blast
  have s': "scanLines (''[POC] http://a/?q=1'' @ [CR, NL] @ ''see http://b'' @ [NL]) = [''[POC] http://a/?q=1'', ''see http://b'']"
    unfolding s r by (simp add: dropCR_def CR_def)
  have p: "ParseDalfoxOutput (''[POC] http://a/?q=1'' @ [CR, NL] @ ''see http://b'' @ [NL]) =
     [\<lparr>URL = ''http://a/?q=1'', Issue = ''XSS'', Detail = ''[POC] http://a/?q=1''\<rparr>]"
    using ParseDalfoxOutput_per_line[of "''[POC] http://a/?q=1'' @ [CR, NL] @ ''see http://b'' @ [NL]"]
    unfolding s' using h f c u by simp
  show ?thesis using p r s' by blast
qed

text \<open>
  The claim as it is written ("for every input") fails at a line that follows a line of
  65536 bytes: the second line below has the marker and a URL, and the parser returns
  nothing.
\<close>

theorem ParseDalfoxOutput_long_line_counterexample:
  "SplitNL (replicate 65536 (CHR ''a'') @ NL # ''[POC] http://x'') = [replicate 65536 (CHR ''a''), ''[POC] http://x'']
   \<and> Contains ''[POC] http://x'' ''[POC]''
   \<and> FindStringSubmatch ''[POC] http://x'' = Some ''http://x''
   \<and> ParseDalfoxOutput (replicate 65536 (CHR ''a'') @ NL # ''[POC] http://x'') = []"
proof -
  have s: "SplitNL (replicate 65536 (CHR ''a'') @ NL # ''[POC] http://x'') = [replicate 65536 (CHR ''a''), ''[POC] http://x'']"
    by (subst SplitNL_append) (simp_all add: NL_def)
  have p: "ParseDalfoxOutput (replicate 65536 (CHR ''a'') @ NL # ''[POC] http://x'') = []"
    unfolding ParseDalfoxOutput_def scanLines_def rawLines_def s
    by (simp add: MaxScanTokenSize_def)
  have f: "FindStringSubmatch ''[POC] http://x'' = Some ''http://x''"
    by (simp add: matchHere_def matchTail_def isSpace_def)
  have c: "Contains ''[POC] http://x'' ''[POC]''" by simp
  show ?thesis using s c f p by blast
qed

section \<open>Properties of the pipeline and of the interface\<close>

subsection \<open>Effects of the primitives\<close>

lemma lock_simps [simp]:
  "scanResult (lock w) = scanResult w" "holding (lock w) = True" "trace (lock w) = trace w @ [EvLock]"
  by (simp_all add: lock_def)

lemma unlock_simps [simp]:
  "scanResult (unlock w) = scanResult w" "holding (unlock w) = False"
  "trace (unlock w) = trace w @ [EvUnlock (scanResult w)]"
  by (simp_all add: unlock_def)

lemma rd_simps [simp]:
  "scanResult (rd f w) = scanResult w" "holding (rd f w) = holding w"
  "trace (rd f w) = trace w @ [EvRead f (holding w)]"
  by (simp_all add: rd_def)

lemma wr_simps [simp]:
  "scanResult (wr f upd w) = upd (scanResult w)" "holding (wr f upd w) = holding w"
  "trace (wr f upd w) = trace w @ [EvWrite f (holding w)]"
  by (simp_all add: wr_def)

lemma ext_simps [simp]:
  "scanResult (ext e w) = scanResult w" "holding (ext e w) = holding w"
  "trace (ext e w) = trace w @ [e]"
  by (simp_all add: ext_def)

lemma rdAll_simps [simp]:
  "scanResult (rdAll w) = scanResult w" "holding (rdAll w) = holding w"
  "trace (rdAll w) = trace w @ map (\<lambda>f. EvRead f (holding w)) allFields"
  by (simp_all add: rdAll_def)

lemma wrAll_simps [simp]:
  "scanResult (wrAll r w) = r" "holding (wrAll r w) = holding w"
  "trace (wrAll r w) = trace w @ map (\<lambda>f. EvWrite f (holding w)) allFields"
  by (simp_all add: wrAll_def)

lemma AppendLog_simps [simp]:
  "scanResult (AppendLog l w) = (scanResult w)\<lparr>LogLines := LogLines (scanResult w) @ [l]\<rparr>"
  "holding (AppendLog l w) = False"
  "trace (AppendLog l w) = trace w @ [EvLock, EvRead F_LogLines True, EvWrite F_LogLines True,
      EvUnlock ((scanResult w)\<lparr>LogLines := LogLines (scanResult w) @ [l]\<rparr>)]"
  by (simp_all add: AppendLog_def)

lemma WriteLines_simps [simp]:
  "scanResult (WriteLines ls p w) = scanResult w" "holding (WriteLines ls p w) = holding w"
  "trace (WriteLines ls p w) = trace w @ [EvWriteFile p]"
  by (simp_all add: WriteLines_def)

lemma execs_append [simp]: "execs (xs @ ys) = execs xs @ execs ys"
  by (induction xs rule: execs.induct) simp_all

lemma snapshots_append [simp]: "snapshots (xs @ ys) = snapshots xs @ snapshots ys"
  by (induction xs rule: snapshots.induct) simp_all

subsection \<open>What the stages leave alone\<close>

text \<open>
  Every stage extends the trace by quiet events only: none of them writes \<open>Running\<close> or
  \<open>FinalReport\<close>, and none of them loses a log line.
\<close>

lemma frame_refl: "frame w w"
  by (simp add: frame_def)

lemma frame_trans: "frame a b \<Longrightarrow> frame b c \<Longrightarrow> frame a c"
  unfolding frame_def by (elim conjE exE) (auto simp: list_all_append)

lemma frame_AppendLog: "frame w v \<Longrightarrow> frame w (AppendLog l v)"
  by (rule frame_trans[of w v]) (auto simp: frame_def)

lemma frame_rd: "frame w v \<Longrightarrow> frame w (rd f v)"
  by (rule frame_trans[of w v]) (auto simp: frame_def)

lemma frame_ext: "(\<And>s. e \<noteq> EvUnlock s) \<Longrightarrow> (\<And>f h. e \<noteq> EvWrite f h) \<Longrightarrow> frame w v \<Longrightarrow> frame w (ext e v)"
  by (rule frame_trans[of w v]) (cases e; auto simp: frame_def)+

lemma frame_WriteLines: "frame w v \<Longrightarrow> frame w (WriteLines ls p v)"
  by (rule frame_trans[of w v]) (auto simp: frame_def)

lemma frame_wr:
  "f \<noteq> F_Running \<Longrightarrow> f \<noteq> F_FinalReport \<Longrightarrow>
   (\<And>r. Running (upd r) = Running r \<and> FinalReport (upd r) = FinalReport r
        \<and> ProxyEnabled (upd r) = ProxyEnabled r \<and> LogLines (upd r) = LogLines r) \<Longrightarrow>
   frame w v \<Longrightarrow> frame w (wr f upd v)"
  by (rule frame_trans[of w v]) (auto simp: frame_def)

lemma frame_foldl:
  "(\<And>u x. frame u (f u x)) \<Longrightarrow> frame w v \<Longrightarrow> frame w (foldl f v xs)"
proof (induction xs arbitrary: v)
  case Nil
  then show ?case by simp
next
  case (Cons x xs)
  have "frame w (f v x)" using Cons.prems frame_trans by blast
  then show ?case using Cons.IH Cons.prems(1) by simp
qed

lemma frame_foldl_snd:
  "(\<And>a u x. frame u (snd (f (a, u) x))) \<Longrightarrow> frame w (snd st) \<Longrightarrow> frame w (snd (foldl f st xs))"
proof (induction xs arbitrary: st)
  case Nil
  then show ?case by simp
next
  case (Cons x xs)
  obtain a u where st: "st = (a, u)" by (cases st)
  have "frame u (snd (f (a, u) x))" by (rule Cons.prems(1))
  then have "frame (snd st) (snd (f st x))" using st by simp
  then have "frame w (snd (f st x))" using Cons.prems(2) frame_trans by blast
  then show ?case using Cons.IH Cons.prems(1) by simp
qed

lemmas frame_intros = frame_AppendLog frame_rd frame_ext frame_WriteLines frame_wr frame_refl

lemma frame_logErr: "frame w v \<Longrightarrow> frame w (logErr pre err v)"
  by (auto simp: logErr_def intro!: frame_intros split: option.splits)

lemma frame_addSubdomain: "frame u (addSubdomain u x)"
  by (auto simp: addSubdomain_def intro!: frame_intros)

lemma frame_EnumerateSubdomains: "frame w v \<Longrightarrow> frame w (EnumerateSubdomains env target key outDir v)"
  by (auto simp: EnumerateSubdomains_def RunCommand_def Let_def split: prod.splits
       intro!: frame_intros frame_logErr frame_foldl frame_addSubdomain)


lemma frame_checkHost: "frame u (snd (checkHost env (a, u) x))"
  by (auto simp: checkHost_def isHostAlive_def Let_def split: prod.splits intro!: frame_intros)

lemma frame_CheckLiveHosts: "frame w v \<Longrightarrow> frame w (CheckLiveHosts env outDir v)"
proof -
  assume a: "frame w v"
  let ?w2 = "rd F_Subdomains (AppendLog ''[*] Checking live hosts...'' v)"
  let ?r = "foldl (checkHost env) ([], ?w2) (Subdomains (scanResult ?w2))"
  have "frame w ?w2" using a by (intro frame_intros)
  then have "frame w (snd ?r)"
    using frame_foldl_snd[of "checkHost env" w "([], ?w2)"] frame_checkHost by simp
  then have "frame w (WriteLines (fst ?r) (pathJoin outDir ''live_hosts.txt'') (snd ?r))"
    by (rule frame_WriteLines)
  then show ?thesis by (simp add: CheckLiveHosts_def Let_def split_beta)
qed

lemma frame_collectURLs: "frame w (snd res) \<Longrightarrow> frame w (snd (collectURLs tool urlSet res))"
  by (auto simp: collectURLs_def split: prod.splits option.splits intro!: frame_intros)

lemma frame_RunCommand: "frame w v \<Longrightarrow> frame w (snd (RunCommand env name args v))"
  by (auto simp: RunCommand_def intro!: frame_intros)

lemma frame_RunURLScan: "frame w v \<Longrightarrow> frame w (RunURLScan env target outDir v)"
  unfolding RunURLScan_def Let_def split_beta
  by (intro frame_intros frame_collectURLs frame_RunCommand) simp_all

lemma frame_RunFuzzing: "frame w v \<Longrightarrow> frame w (RunFuzzing env target outDir v)"
  by (auto simp: RunFuzzing_def RunCommand_def Let_def split: prod.splits option.splits
       intro!: frame_intros)

lemma frame_RunPreVulnTools: "frame w v \<Longrightarrow> frame w (RunPreVulnTools env target outDir v)"
  unfolding RunPreVulnTools_def Let_def
  by (intro frame_intros frame_RunCommand) simp_all

lemma frame_addVulns: "frame w (snd res) \<Longrightarrow> frame w (addVulns parse res)"
  by (auto simp: addVulns_def split: prod.splits option.splits intro!: frame_intros)

lemma frame_RunVulnerabilityScans: "frame w v \<Longrightarrow> frame w (RunVulnerabilityScans env target outDir v)"
  unfolding RunVulnerabilityScans_def Let_def
  by (intro frame_intros frame_addVulns frame_RunCommand) simp_all

lemma frame_resolveHost: "frame u (snd (resolveHost env (a, u) x))"
  by (auto simp: resolveHost_def split: option.splits intro!: frame_intros)

lemma frame_enrichIP: "frame u (enrichIP env apiKey u ip)"
  by (auto simp: enrichIP_def ShodanLookup_def Let_def split: prod.splits option.splits if_splits
       intro!: frame_intros)

lemma frame_EnrichWithShodan: "frame w v \<Longrightarrow> frame w (EnrichWithShodan env apiKey outDir v)"
proof -
  assume a: "frame w v"
  let ?w2 = "rd F_Subdomains (AppendLog ''[*] Starting Shodan enrichment...'' v)"
  let ?r = "foldl (resolveHost env) ([], ?w2) (Subdomains (scanResult ?w2))"
  have "frame w ?w2" using a by (intro frame_intros)
  then have "frame w (snd ?r)"
    using frame_foldl_snd[of "resolveHost env" w "([], ?w2)"] frame_resolveHost by simp
  then have "frame w (foldl (enrichIP env apiKey) (snd ?r) (uniqueStrings (fst ?r)))"
    using frame_foldl[of "enrichIP env apiKey" w "snd ?r"] frame_enrichIP by simp
  then have "frame w (AppendLog ''[*] Shodan enrichment complete.''
      (ext (EvWriteFile (pathJoin outDir ''enrichment.json''))
         (foldl (enrichIP env apiKey) (snd ?r) (uniqueStrings (fst ?r)))))"
    by (intro frame_intros) simp_all
  then show ?thesis by (simp add: EnrichWithShodan_def Let_def split_beta)
qed

lemma frame_stages: "frame w v \<Longrightarrow> frame w (stages env target outDir v)"
  unfolding stages_def Let_def
  by (auto intro!: frame_EnrichWithShodan frame_RunVulnerabilityScans frame_RunPreVulnTools
       frame_RunFuzzing frame_RunURLScan frame_CheckLiveHosts frame_EnumerateSubdomains)


subsection \<open>Commands run\<close>

lemma execs_foldl:
  "(\<And>u x. execs (trace (f u x)) = execs (trace u)) \<Longrightarrow> execs (trace (foldl f v xs)) = execs (trace v)"
  by (induction xs arbitrary: v) simp_all

lemma execs_foldl_snd:
  "(\<And>a u x. execs (trace (snd (f (a, u) x))) = execs (trace u)) \<Longrightarrow>
   execs (trace (snd (foldl f st xs))) = execs (trace (snd st))"
proof (induction xs arbitrary: st)
  case Nil
  show ?case by simp
next
  case (Cons x xs)
  obtain a u where st: "st = (a, u)" by (cases st)
  have "execs (trace (snd (f (a, u) x))) = execs (trace u)" by (rule Cons.prems)
  then show ?case using Cons.IH[OF Cons.prems, of "f st x"] st by simp
qed

lemma execs_logErr [simp]: "execs (trace (logErr pre err v)) = execs (trace v)"
  by (simp add: logErr_def split: option.splits)

lemma execs_addSubdomain [simp]: "execs (trace (addSubdomain u x)) = execs (trace u)"
  by (simp add: addSubdomain_def)

lemma execs_EnumerateSubdomains:
  "execs (trace (EnumerateSubdomains env target key outDir v)) = execs (trace v) @ [''assetfinder'', ''amass'']"
  by (simp add: EnumerateSubdomains_def RunCommand_def Let_def execs_foldl split: prod.splits)

lemma execs_checkHost: "execs (trace (snd (checkHost env (a, u) x))) = execs (trace u)"
  by (simp add: checkHost_def isHostAlive_def Let_def split: prod.splits)

lemma execs_CheckLiveHosts: "execs (trace (CheckLiveHosts env outDir v)) = execs (trace v)"
  by (simp add: CheckLiveHosts_def Let_def split_beta execs_foldl_snd[of "checkHost env"] execs_checkHost)

lemma execs_collectURLs [simp]: "execs (trace (snd (collectURLs tool urlSet res))) = execs (trace (snd res))"
  by (simp add: collectURLs_def split: prod.splits option.splits)

lemma execs_RunCommand [simp]: "execs (trace (snd (RunCommand env name args v))) = execs (trace v) @ [name]"
  by (simp add: RunCommand_def)

lemma execs_RunURLScan:
  "execs (trace (RunURLScan env target outDir v)) = execs (trace v) @ [''hakrawler'', ''gau'', ''bash'']"
  by (simp add: RunURLScan_def Let_def split_beta)

lemma execs_RunFuzzing: "execs (trace (RunFuzzing env target outDir v)) = execs (trace v) @ [''ffuf'']"
  by (simp add: RunFuzzing_def RunCommand_def Let_def split: prod.splits option.splits)

lemma execs_RunPreVulnTools:
  "execs (trace (RunPreVulnTools env target outDir v)) = execs (trace v) @ [''JSFinder'', ''paramspider'', ''paramwizard'']"
  by (simp add: RunPreVulnTools_def Let_def)

lemma execs_addVulns [simp]: "execs (trace (addVulns parse res)) = execs (trace (snd res))"
  by (simp add: addVulns_def split: prod.splits option.splits)

lemma execs_RunVulnerabilityScans:
  "execs (trace (RunVulnerabilityScans env target outDir v)) = execs (trace v) @ [''sqlmap'', ''dalfox'']"
  by (simp add: RunVulnerabilityScans_def Let_def)

lemma execs_resolveHost: "execs (trace (snd (resolveHost env (a, u) x))) = execs (trace u)"
  by (simp add: resolveHost_def split: option.splits)

lemma execs_enrichIP: "execs (trace (enrichIP env apiKey u ip)) = execs (trace u)"
  by (simp add: enrichIP_def ShodanLookup_def Let_def split: prod.splits option.splits)

lemma execs_EnrichWithShodan: "execs (trace (EnrichWithShodan env apiKey outDir v)) = execs (trace v)"
  by (simp add: EnrichWithShodan_def Let_def split_beta execs_foldl_snd[of "resolveHost env"]
        execs_resolveHost execs_foldl[of "enrichIP env apiKey"] execs_enrichIP)

lemma execs_stages:
  "execs (trace (stages env target outDir v)) = execs (trace v) @
     [''assetfinder'', ''amass'', ''hakrawler'', ''gau'', ''bash'', ''ffuf'',
      ''JSFinder'', ''paramspider'', ''paramwizard'', ''sqlmap'', ''dalfox'']"
  by (simp add: stages_def Let_def execs_EnumerateSubdomains execs_CheckLiveHosts execs_RunURLScan
        execs_RunFuzzing execs_RunPreVulnTools execs_RunVulnerabilityScans execs_EnrichWithShodan)

subsection \<open>The deduplicated URL list\<close>

lemma foldl_uniqueStep:
  "distinct res \<Longrightarrow> seen = (\<lambda>s. s \<in> set res) \<Longrightarrow>
   distinct (snd (foldl uniqueStep (seen, res) xs))
   \<and> set (snd (foldl uniqueStep (seen, res) xs)) = set res \<union> set xs"
proof (induction xs arbitrary: seen res)
  case Nil
  then show ?case by simp
next
  case (Cons x xs)
  show ?case
  proof (cases "x \<in> set res")
    case True
    then have u: "uniqueStep (seen, res) x = (seen, res)" using Cons.prems(2) by (simp add: uniqueStep_def)
    have e: "set res \<union> set xs = set res \<union> set (x # xs)" using True by auto
    have step: "foldl uniqueStep (seen, res) (x # xs) = foldl uniqueStep (seen, res) xs"
      using u by simp
    note h = Cons.IH[OF Cons.prems]
    show ?thesis unfolding step
    proof
      show "distinct (snd (foldl uniqueStep (seen, res) xs))"
        by (rule conjunct1[OF h])
      show "set (snd (foldl uniqueStep (seen, res) xs)) = set res \<union> set (x # xs)"
        by (rule trans[OF conjunct2[OF h] e])
    qed
  next
    case False
    then have u: "uniqueStep (seen, res) x = (seen(x := True), res @ [x])"
      using Cons.prems(2) by (simp add: uniqueStep_def)
    have d: "distinct (res @ [x])" using False Cons.prems(1) by simp
    have s: "seen(x := True) = (\<lambda>s. s \<in> set (res @ [x]))"
      using Cons.prems(2) by (simp add: fun_eq_iff)
    have e: "set (res @ [x]) \<union> set xs = set res \<union> set (x # xs)" by auto
    have step: "foldl uniqueStep (seen, res) (x # xs) = foldl uniqueStep (seen(x := True), res @ [x]) xs"
      using u by simp
    note h = Cons.IH[OF d s]
    show ?thesis unfolding step
    proof
      show "distinct (snd (foldl uniqueStep (seen(x := True), res @ [x]) xs))"
        by (rule conjunct1[OF h])
      show "set (snd (foldl uniqueStep (seen(x := True), res @ [x]) xs)) = set res \<union> set (x # xs)"
        by (rule trans[OF conjunct2[OF h] e])
    qed
  qed
qed

lemma distinct_uniqueStrings: "distinct (uniqueStrings xs)"
  using foldl_uniqueStep[of "[]" "\<lambda>_. False" xs] by (simp add: uniqueStrings_def)

lemma set_uniqueStrings: "set (uniqueStrings xs) = set xs"
  using foldl_uniqueStep[of "[]" "\<lambda>_. False" xs] by (simp add: uniqueStrings_def)


text \<open>
  Claim C8. Whatever the three URL discovery tools print or return (duplicate lines,
  lines that several tools share, errors), and in whatever order the map is walked, the
  \<open>AllURLs\<close> that \<open>RunURLScan\<close> writes has no duplicate entry.
\<close>

theorem RunURLScan_AllURLs_distinct:
  "distinct (AllURLs (scanResult (RunURLScan env target outDir w)))"
  by (simp add: RunURLScan_def Let_def split_beta distinct_uniqueStrings)


theorem RunURLScan_AllURLs_distinct_witness:
  "AllURLs (scanResult (RunURLScan envOverlap ''example.com'' ''out'' (initScan zeroWorld))) =
     [''http://a/'', ''http://b/'', ''http://c/'']
   \<and> distinct (AllURLs (scanResult (RunURLScan envOverlap ''example.com'' ''out'' (initScan zeroWorld))))"
proof -
  have "AllURLs (scanResult (RunURLScan envOverlap ''example.com'' ''out'' (initScan zeroWorld))) =
     [''http://a/'', ''http://b/'', ''http://c/'']"
    by (simp add: RunURLScan_def RunCommand_def Let_def envOverlap_def envQuiet_def collectURLs_def
          addLines_def setKey_def scanLines_def rawLines_def dropCR_def MaxScanTokenSize_def
          uniqueStrings_def uniqueStep_def NL_def CR_def)
  then show ?thesis
    using RunURLScan_AllURLs_distinct[of envOverlap "''example.com''" "''out''" "initScan zeroWorld"]
    by blast
qed


subsection \<open>The subdomain records\<close>

lemma Subdomains_foldl_addSubdomain:
  "Subdomains (scanResult (foldl addSubdomain w xs)) =
     Subdomains (scanResult w) @
       map (\<lambda>s. \<lparr>Hostname = s, IP = ''192.0.2.1'', Ports = [80, 443]\<rparr>) (filter (\<lambda>s. s \<noteq> []) xs)"
  by (induction xs arbitrary: w) (simp_all add: addSubdomain_def)

lemma Subdomains_logErr [simp]: "Subdomains (scanResult (logErr pre err w)) = Subdomains (scanResult w)"
  by (simp add: logErr_def split: option.splits)

lemma scanners_foldl_addSubdomain:
  "Subdomains (fst (foldl scanners_addSubdomain st xs)) =
     Subdomains (fst st) @
       map (\<lambda>s. \<lparr>Hostname = s, IP = ''192.0.2.1'', Ports = [80, 443]\<rparr>) (filter (\<lambda>s. s \<noteq> []) xs)"
  by (induction xs arbitrary: st) (simp_all add: scanners_addSubdomain_def split_beta)

text \<open>
  Claim C10. What \<open>EnumerateSubdomains\<close> appends to \<open>Subdomains\<close> is a list of records that
  all carry the IP \<open>192.0.2.1\<close> and the ports \<open>[80, 443]\<close>, whatever the target and whatever
  the enumeration tools print; this holds for the function in main.go and for its
  variant in the scanners package.
\<close>

theorem EnumerateSubdomains_constant_IP_ports:
  "(\<exists>hosts. Subdomains (scanResult (EnumerateSubdomains env target chaosKey outDir w)) =
      Subdomains (scanResult w) @ map (\<lambda>s. \<lparr>Hostname = s, IP = ''192.0.2.1'', Ports = [80, 443]\<rparr>) hosts)
   \<and> (\<exists>hosts. Subdomains (fst (scanners_EnumerateSubdomains UniqueStrings assetRes amassRes writeErr (result, logs))) =
      Subdomains result @ map (\<lambda>s. \<lparr>Hostname = s, IP = ''192.0.2.1'', Ports = [80, 443]\<rparr>) hosts)"
proof
  have "Subdomains (scanResult (EnumerateSubdomains env target chaosKey outDir w)) =
      Subdomains (scanResult w) @ map (\<lambda>s. \<lparr>Hostname = s, IP = ''192.0.2.1'', Ports = [80, 443]\<rparr>)
        (filter (\<lambda>s. s \<noteq> [])
          (uniqueStrings
            (SplitNL (fst (fst (RunCommand env ''assetfinder'' [target]
                 (AppendLog ''[*] Starting subdomain enumeration...'' w)))) @
             SplitNL (fst (fst (RunCommand env ''amass''
                 [''enum'', ''-d'', target, ''-passive'', ''-norecursive'', ''-noalts'', ''-timeout'', ''60'']
                 (logErr ''[!] assetfinder error: ''
                    (snd (fst (RunCommand env ''assetfinder'' [target]
                       (AppendLog ''[*] Starting subdomain enumeration...'' w))))
                    (snd (RunCommand env ''assetfinder'' [target]
                       (AppendLog ''[*] Starting subdomain enumeration...'' w))))))))))"
    unfolding EnumerateSubdomains_def Let_def split_beta
    by (simp add: Subdomains_foldl_addSubdomain RunCommand_def)
  then show "\<exists>hosts. Subdomains (scanResult (EnumerateSubdomains env target chaosKey outDir w)) =
      Subdomains (scanResult w) @ map (\<lambda>s. \<lparr>Hostname = s, IP = ''192.0.2.1'', Ports = [80, 443]\<rparr>) hosts"
    by (rule exI)
next
  have "Subdomains (fst (scanners_EnumerateSubdomains UniqueStrings assetRes amassRes writeErr (result, logs))) =
      Subdomains result @ map (\<lambda>s. \<lparr>Hostname = s, IP = ''192.0.2.1'', Ports = [80, 443]\<rparr>)
        (filter (\<lambda>s. s \<noteq> []) (UniqueStrings (SplitNL (fst assetRes) @ SplitNL (fst amassRes))))"
    unfolding scanners_EnumerateSubdomains_def Let_def split_beta
    by (simp add: scanners_foldl_addSubdomain)
  then show "\<exists>hosts. Subdomains (fst (scanners_EnumerateSubdomains UniqueStrings assetRes amassRes writeErr (result, logs))) =
      Subdomains result @ map (\<lambda>s. \<lparr>Hostname = s, IP = ''192.0.2.1'', Ports = [80, 443]\<rparr>) hosts"
    by (rule exI)
qed

theorem EnumerateSubdomains_constant_IP_ports_witness:
  "Subdomains (scanResult (EnumerateSubdomains envAsset ''example.com'' [] ''out'' (initScan zeroWorld))) =
     [\<lparr>Hostname = ''a.example.com'', IP = ''192.0.2.1'', Ports = [80, 443]\<rparr>]
   \<and> Subdomains (fst (scanners_EnumerateSubdomains uniqueStrings (''a.example.com'' @ [NL] @ ''b.example.com'', None)
        (''b.example.com'' @ [NL], Some ''exit status 1'') None (zeroScanResult, []))) =
     [\<lparr>Hostname = ''a.example.com'', IP = ''192.0.2.1'', Ports = [80, 443]\<rparr>,
      \<lparr>Hostname = ''b.example.com'', IP = ''192.0.2.1'', Ports = [80, 443]\<rparr>]"
proof -
  have a: "Subdomains (scanResult (EnumerateSubdomains envAsset ''example.com'' [] ''out'' (initScan zeroWorld))) =
     [\<lparr>Hostname = ''a.example.com'', IP = ''192.0.2.1'', Ports = [80, 443]\<rparr>]"
    by (simp add: EnumerateSubdomains_def RunCommand_def Let_def envAsset_def envQuiet_def
          uniqueStrings_def uniqueStep_def addSubdomain_def logErr_def initScan_def zeroScanResult_def NL_def)
  have b: "Subdomains (fst (scanners_EnumerateSubdomains uniqueStrings (''a.example.com'' @ [NL] @ ''b.example.com'', None)
        (''b.example.com'' @ [NL], Some ''exit status 1'') None (zeroScanResult, []))) =
     [\<lparr>Hostname = ''a.example.com'', IP = ''192.0.2.1'', Ports = [80, 443]\<rparr>,
      \<lparr>Hostname = ''b.example.com'', IP = ''192.0.2.1'', Ports = [80, 443]\<rparr>]"
    by (simp add: scanners_EnumerateSubdomains_def scanners_addSubdomain_def scanners_logErr_def
          Let_def uniqueStrings_def uniqueStep_def zeroScanResult_def NL_def)
  show ?thesis
    using a b EnumerateSubdomains_constant_IP_ports[of envAsset "''example.com''" "[]" "''out''" "initScan zeroWorld"]
    by blast
qed

subsection \<open>The proxy toggle\<close>

lemma scanResult_toggleProxy:
  "scanResult (fst (toggleProxy (w, t))) =
     (scanResult w)\<lparr>ProxyEnabled := \<not> ProxyEnabled (scanResult w),
        LogLines := LogLines (scanResult w) @ [''[*] Proxy enabled: '' @ showBool (\<not> ProxyEnabled (scanResult w))]\<rparr>"
  by (simp add: toggleProxy_def Let_def)

text \<open>
  Claim C9. From any state, two presses of the proxy key (\<open>p\<close> or \<open>P\<close>) give back the
  \<open>ProxyEnabled\<close> the state started with, append exactly two lines to \<open>LogLines\<close> (the first
  records the flipped value, the second the restored one) and leave every other field
  of \<open>scanResult\<close> as it was.
\<close>

theorem toggleProxy_twice:
  assumes "k1 = CHR ''p'' \<or> k1 = CHR ''P''" and "k2 = CHR ''p'' \<or> k2 = CHR ''P''"
  shows "scanResult (fst (inputCapture k2 (inputCapture k1 (w, t)))) =
           (scanResult w)\<lparr>LogLines := LogLines (scanResult w) @
              [''[*] Proxy enabled: '' @ showBool (\<not> ProxyEnabled (scanResult w)),
               ''[*] Proxy enabled: '' @ showBool (ProxyEnabled (scanResult w))]\<rparr>
         \<and> ProxyEnabled (scanResult (fst (inputCapture k2 (inputCapture k1 (w, t))))) = ProxyEnabled (scanResult w)"
proof -
  have a: "inputCapture k1 (w, t) = toggleProxy (w, t)" using assms(1) by (auto simp: inputCapture_def)
  have b: "inputCapture k2 st = toggleProxy st" for st using assms(2) by (cases st) (auto simp: inputCapture_def)
  obtain w1 t1 where m: "toggleProxy (w, t) = (w1, t1)" by (cases "toggleProxy (w, t)")
  have w1: "scanResult w1 = (scanResult w)\<lparr>ProxyEnabled := \<not> ProxyEnabled (scanResult w),
        LogLines := LogLines (scanResult w) @ [''[*] Proxy enabled: '' @ showBool (\<not> ProxyEnabled (scanResult w))]\<rparr>"
    using scanResult_toggleProxy[of w t] m by simp
  show ?thesis unfolding a b m using scanResult_toggleProxy[of w1 t1] w1 by simp
qed

theorem toggleProxy_twice_witness:
  "scanResult (fst (inputCapture (CHR ''P'') (inputCapture (CHR ''p'') (zeroWorld, initTUI)))) =
     zeroScanResult\<lparr>LogLines := [''[*] Proxy enabled: true'', ''[*] Proxy enabled: false'']\<rparr>
   \<and> ProxyEnabled (scanResult (fst (inputCapture (CHR ''P'') (inputCapture (CHR ''p'') (zeroWorld, initTUI))))) = False"
  using toggleProxy_twice[of "CHR ''p''" "CHR ''P''" zeroWorld initTUI]
  by (simp add: zeroWorld_def zeroScanResult_def showBool_def)

subsection \<open>The fuzzing stage\<close>

lemma foldl_ffufStep: "foldl (ffufStep unmarshal) acc ls = acc @ List.map_filter unmarshal ls"
  by (induction ls arbitrary: acc) (simp_all add: ffufStep_def List.map_filter_simps split: option.splits)

lemma scanners_RunFuzzing_parses:
  "FfufEntries (fst (scanners_RunFuzzing unmarshal None (Inr data) (result, logs))) =
     List.map_filter unmarshal (scanLines data)"
  by (simp add: scanners_RunFuzzing_def Let_def foldl_ffufStep)

lemma RunFuzzing_constant:
  "\<forall>n args. snd (runCommand env n ''ffuf'' args) = None \<Longrightarrow>
   FfufEntries (scanResult (RunFuzzing env target outDir w)) = [\<lparr>Path = ''/admin'', Status = 200, Size = 512\<rparr>]"
  by (simp add: RunFuzzing_def RunCommand_def Let_def split_beta)

text \<open>
  Claim C3 asks that, after ffuf has exited successfully, \<open>FfufEntries\<close> holds the records
  parsed from its output file. The \<open>RunFuzzing\<close> of main.go, the one the pipeline
  calls, does not read that file: when every command succeeds and prints nothing it
  stores the one fixed entry \<open>/admin\<close>, 200, 512. The variant of the scanners package
  does parse the file: on an empty file it stores no entry.
\<close>

theorem RunFuzzing_ignores_ffuf_output:
  "FfufEntries (scanResult (RunFuzzing envQuiet ''example.com'' ''out'' (initScan zeroWorld))) =
     [\<lparr>Path = ''/admin'', Status = 200, Size = 512\<rparr>]
   \<and> FfufEntries (fst (scanners_RunFuzzing unmarshal None (Inr []) (zeroScanResult, []))) = []"
proof -
  have "\<forall>n args. snd (runCommand envQuiet n ''ffuf'' args) = None" by (simp add: envQuiet_def)
  then have a: "FfufEntries (scanResult (RunFuzzing envQuiet ''example.com'' ''out'' (initScan zeroWorld))) =
     [\<lparr>Path = ''/admin'', Status = 200, Size = 512\<rparr>]" by (rule RunFuzzing_constant)
  have "scanLines [] = []" by (simp add: scanLines_def rawLines_def)
  then have b: "FfufEntries (fst (scanners_RunFuzzing unmarshal None (Inr []) (zeroScanResult, []))) = []"
    using scanners_RunFuzzing_parses[of unmarshal "[]" zeroScanResult "[]"] by (simp add: List.map_filter_simps)
  show ?thesis using a b by blast
qed

subsection \<open>The view updaters\<close>

lemma foldl_subdomainsView:
  "foldl (\<lambda>t sub. t\<lparr>subdomainsView := subdomainsView t @ fmtSubdomain sub\<rparr>) t xs =
     t\<lparr>subdomainsView := subdomainsView t @ concat (map fmtSubdomain xs)\<rparr>"
  by (induction xs arbitrary: t) simp_all

lemma foldl_vulnsView:
  "foldl (\<lambda>t v. t\<lparr>vulnsView := vulnsView t @ fmtVuln v\<rparr>) t xs =
     t\<lparr>vulnsView := vulnsView t @ concat (map fmtVuln xs)\<rparr>"
  by (induction xs arbitrary: t) simp_all

lemma foldl_ffufView:
  "foldl (\<lambda>t f. t\<lparr>ffufView := ffufView t @ fmtFfuf f\<rparr>) t xs =
     t\<lparr>ffufView := ffufView t @ concat (map fmtFfuf xs)\<rparr>"
  by (induction xs arbitrary: t) simp_all

lemma foldl_consoleView:
  "foldl (\<lambda>t line. t\<lparr>consoleView := consoleView t @ fmtLogLine line\<rparr>) t xs =
     t\<lparr>consoleView := consoleView t @ concat (map fmtLogLine xs)\<rparr>"
  by (induction xs arbitrary: t) simp_all

text \<open>
  Claim C2, as the code has it. A round of the pane updater redraws the subdomain,
  vulnerability, fuzzing and report views from the shared result only when \<open>Running\<close> is
  false; while the scan is running it leaves every view as it was. A round of the
  console updater redraws the log view from \<open>LogLines\<close> in either case.
\<close>

theorem paneTick_redraws_only_when_done:
  "snd (paneTick (w, t)) =
     (if Running (scanResult w) then t
      else t\<lparr>subdomainsView := concat (map fmtSubdomain (Subdomains (scanResult w))),
             vulnsView := concat (map fmtVuln (VulnURLs (scanResult w))),
             ffufView := concat (map fmtFfuf (FfufEntries (scanResult w))),
             reportView := FinalReport (scanResult w)\<rparr>)
   \<and> snd (consoleTick (w, t)) = t\<lparr>consoleView := concat (map fmtLogLine (LogLines (scanResult w)))\<rparr>"
  by (simp add: paneTick_def consoleTick_def Let_def foldl_subdomainsView foldl_vulnsView
        foldl_ffufView foldl_consoleView)

theorem paneTick_redraws_only_when_done_witness:
  "subdomainsView (snd (paneTick (worldDone, initTUI))) = ''a.example.com - IP: 192.0.2.1 | Ports: [80 443]'' @ [NL]
   \<and> reportView (snd (paneTick (worldDone, initTUI))) = ''Final report for example.com''
   \<and> snd (paneTick (worldRunning, initTUI)) = initTUI
   \<and> consoleView (snd (consoleTick (worldRunning, initTUI))) = []"
proof -
  have f: "fmtSubdomain \<lparr>Hostname = ''a.example.com'', IP = ''192.0.2.1'', Ports = [80, 443]\<rparr> =
      ''a.example.com - IP: 192.0.2.1 | Ports: [80 443]'' @ [NL]"
    by code_simp
  show ?thesis
    using paneTick_redraws_only_when_done[of worldDone initTUI]
      paneTick_redraws_only_when_done[of worldRunning initTUI] f
    by (simp add: worldDone_def worldRunning_def zeroScanResult_def)
qed

text \<open>
  The claim as it is written fails while the scan is running: the subdomain page is in
  front, the shared result holds a subdomain, and a round of the pane updater leaves the
  subdomain view empty.
\<close>

theorem paneTick_running_counterexample:
  "Running (scanResult worldRunning)
   \<and> page initTUI = ''Subdomains''
   \<and> Subdomains (scanResult worldRunning) = [\<lparr>Hostname = ''a.example.com'', IP = ''192.0.2.1'', Ports = [80, 443]\<rparr>]
   \<and> subdomainsView (snd (paneTick (worldRunning, initTUI))) = []"
  by (simp add: paneTick_def worldRunning_def zeroScanResult_def initTUI_def updateProxyView_def Let_def)

subsection \<open>Accesses outside the lock\<close>

lemma addSubdomain_trace:
  "s \<noteq> [] \<Longrightarrow> trace (addSubdomain w s) = trace w @
     [EvRead F_Subdomains (holding w), EvWrite F_Subdomains (holding w), EvLock,
      EvRead F_LogLines True, EvWrite F_LogLines True,
      EvUnlock (scanResult (addSubdomain w s))]"
  by (simp add: addSubdomain_def)

text \<open>
  Claim C1 asks that every read and write of a field of the shared result is made while
  holding the lock. The code does not keep to it. With one host printed by assetfinder,
  \<open>EnumerateSubdomains\<close> reads and writes \<open>Subdomains\<close> without the lock; \<open>RunURLScan\<close>
  writes \<open>AllURLs\<close> without it; a round of the pane updater reads \<open>Running\<close> before it takes
  the lock; the key handler reads \<open>ProxyEnabled\<close> twice after it has released it.
\<close>

theorem unlocked_accesses:
  "filter unguarded (trace (EnumerateSubdomains envAsset ''example.com'' [] ''out'' (initScan zeroWorld))) =
     [EvRead F_Subdomains False, EvWrite F_Subdomains False]
   \<and> filter unguarded (trace (RunURLScan envQuiet ''example.com'' ''out'' (initScan zeroWorld))) =
     [EvWrite F_AllURLs False]
   \<and> filter unguarded (trace (fst (paneTick (worldDone, initTUI)))) = [EvRead F_Running False]
   \<and> filter unguarded (trace (fst (toggleProxy (worldDone, initTUI)))) =
     [EvRead F_ProxyEnabled False, EvRead F_ProxyEnabled False]"
proof -
  have a: "filter unguarded (trace (EnumerateSubdomains envAsset ''example.com'' [] ''out'' (initScan zeroWorld))) =
     [EvRead F_Subdomains False, EvWrite F_Subdomains False]"
    by (simp add: EnumerateSubdomains_def RunCommand_def Let_def envAsset_def envQuiet_def
          uniqueStrings_def uniqueStep_def addSubdomain_def logErr_def initScan_def zeroWorld_def
          allFields_def NL_def)
  have b: "filter unguarded (trace (RunURLScan envQuiet ''example.com'' ''out'' (initScan zeroWorld))) =
     [EvWrite F_AllURLs False]"
    by (simp add: RunURLScan_def RunCommand_def Let_def envQuiet_def collectURLs_def addLines_def
          scanLines_def rawLines_def uniqueStrings_def initScan_def zeroWorld_def allFields_def)
  have c: "filter unguarded (trace (fst (paneTick (worldDone, initTUI)))) = [EvRead F_Running False]"
    by (simp add: paneTick_def Let_def worldDone_def zeroScanResult_def)
  have d: "filter unguarded (trace (fst (toggleProxy (worldDone, initTUI)))) =
     [EvRead F_ProxyEnabled False, EvRead F_ProxyEnabled False]"
    by (simp add: toggleProxy_def Let_def worldDone_def)
  show ?thesis using a b c d by blast
qed

subsection \<open>Failures that are logged\<close>

lemma execs_Nil_no_exec: "execs t = [] \<Longrightarrow> j < length t \<Longrightarrow> t ! j \<noteq> EvExec name args"
proof (induction t arbitrary: j)
  case Nil
  then show ?case by simp
next
  case (Cons e es)
  show ?case
  proof (cases j)
    case 0
    then show ?thesis using Cons.prems by (cases e) simp_all
  next
    case (Suc k)
    have "execs es = []" using Cons.prems(1) by (cases e) simp_all
    then show ?thesis using Cons.IH[of k] Cons.prems(2) Suc by simp
  qed
qed

lemma frame_logs_mono:
  "frame v v' \<Longrightarrow> x \<in> set (LogLines (scanResult v)) \<Longrightarrow> x \<in> set (LogLines (scanResult v'))"
  unfolding frame_def using set_mono_prefix by blast

text \<open>A step that runs no command and drops no log line keeps the property.\<close>

lemma failuresLogged_ext:
  assumes fl: "failuresLogged env v" and t: "trace v' = trace v @ t" and et: "execs t = []"
    and mono: "set (LogLines (scanResult v)) \<subseteq> set (LogLines (scanResult v'))"
  shows "failuresLogged env v'"
  unfolding failuresLogged_def
proof (intro allI impI)
  fix n name args l e
  assume a: "n < length (trace v') \<and> trace v' ! n = EvExec name args
      \<and> errorLabel name = Some l \<and> snd (runCommand env n name args) = Some e"
  show "''[!] '' @ l @ '' error: '' @ e \<in> set (LogLines (scanResult v'))"
  proof (cases "n < length (trace v)")
    case True
    then have "trace v ! n = EvExec name args" using a t by (simp add: nth_append)
    then have "''[!] '' @ l @ '' error: '' @ e \<in> set (LogLines (scanResult v))"
      using fl True a unfolding failuresLogged_def by blast
    then show ?thesis using mono by blast
  next
    case False
    then have "t ! (n - length (trace v)) = EvExec name args" and "n - length (trace v) < length t"
      using a t by (auto simp: nth_append)
    then show ?thesis using execs_Nil_no_exec[OF et] by blast
  qed
qed

lemma failuresLogged_quiet:
  assumes fl: "failuresLogged env v" and fr: "frame v v'" and ex: "execs (trace v') = execs (trace v)"
  shows "failuresLogged env v'"
proof -
  obtain t where t: "trace v' = trace v @ t" using fr unfolding frame_def by blast
  have et: "execs t = []" using ex unfolding t by simp
  have "set (LogLines (scanResult v)) \<subseteq> set (LogLines (scanResult v'))"
    using frame_logs_mono[OF fr] by blast
  then show ?thesis using failuresLogged_ext[OF fl t et] by blast
qed

text \<open>Running a command and then handling its error as the code does keeps the property.\<close>

lemma failuresLogged_run:
  assumes fl: "failuresLogged env v"
    and fr: "frame (ext (EvExec name args) v) v'"
    and ex: "execs (trace v') = execs (trace v) @ [name]"
    and lg: "\<And>l e. errorLabel name = Some l \<Longrightarrow> snd (runCommand env (length (trace v)) name args) = Some e
               \<Longrightarrow> ''[!] '' @ l @ '' error: '' @ e \<in> set (LogLines (scanResult v'))"
  shows "failuresLogged env v'"
proof -
  obtain t where t: "trace v' = trace v @ EvExec name args # t"
    using fr unfolding frame_def by auto
  have et: "execs t = []" using ex unfolding t by simp
  have mono: "x \<in> set (LogLines (scanResult v)) \<Longrightarrow> x \<in> set (LogLines (scanResult v'))" for x
    using frame_logs_mono[OF fr] by simp
  show ?thesis
    unfolding failuresLogged_def
  proof (intro allI impI)
    fix n name' args' l e
    assume a: "n < length (trace v') \<and> trace v' ! n = EvExec name' args'
        \<and> errorLabel name' = Some l \<and> snd (runCommand env n name' args') = Some e"
    consider (old) "n < length (trace v)" | (here) "n = length (trace v)" | (new) "n > length (trace v)"
      by linarith
    then show "''[!] '' @ l @ '' error: '' @ e \<in> set (LogLines (scanResult v'))"
    proof cases
      case old
      then have "trace v ! n = EvExec name' args'" using a t by (simp add: nth_append)
      then have "''[!] '' @ l @ '' error: '' @ e \<in> set (LogLines (scanResult v))"
        using fl old a unfolding failuresLogged_def by blast
      then show ?thesis by (rule mono)
    next
      case here
      then have "name' = name" "args' = args" using a t by (simp_all add: nth_append)
      then show ?thesis using lg a here by blast
    next
      case new
      then have "t ! (n - length (trace v) - 1) = EvExec name' args'" and "n - length (trace v) - 1 < length t"
        using a t by (auto simp: nth_append nth_Cons')
      then show ?thesis using execs_Nil_no_exec[OF et] by blast
    qed
  qed
qed


lemma logErr_logs:
  "LogLines (scanResult (logErr pre err v)) =
     LogLines (scanResult v) @ (case err of None \<Rightarrow> [] | Some e \<Rightarrow> [pre @ e])"
  by (simp add: logErr_def split: option.splits)

lemma failuresLogged_RunCommand_logErr:
  assumes "failuresLogged env v"
    and "\<And>l. errorLabel name = Some l \<Longrightarrow> pre = ''[!] '' @ l @ '' error: ''"
  shows "failuresLogged env
           (logErr pre (snd (fst (RunCommand env name args v))) (snd (RunCommand env name args v)))"
proof (rule failuresLogged_run[OF assms(1), of name args])
  show "frame (ext (EvExec name args) v)
          (logErr pre (snd (fst (RunCommand env name args v))) (snd (RunCommand env name args v)))"
    unfolding RunCommand_def by (simp add: frame_logErr frame_refl)
  show "execs (trace (logErr pre (snd (fst (RunCommand env name args v))) (snd (RunCommand env name args v))))
          = execs (trace v) @ [name]"
    by simp
  show "''[!] '' @ l @ '' error: '' @ e
          \<in> set (LogLines (scanResult (logErr pre (snd (fst (RunCommand env name args v)))
                 (snd (RunCommand env name args v)))))"
    if "errorLabel name = Some l" "snd (runCommand env (length (trace v)) name args) = Some e" for l e
    using that assms(2)[OF that(1)] by (simp add: logErr_logs RunCommand_def)
qed

lemma failuresLogged_collectURLs:
  assumes "failuresLogged env v"
    and "\<And>l. errorLabel name = Some l \<Longrightarrow> l = tool"
  shows "failuresLogged env (snd (collectURLs tool urlSet (RunCommand env name args v)))"
proof (rule failuresLogged_run[OF assms(1), of name args])
  show "frame (ext (EvExec name args) v) (snd (collectURLs tool urlSet (RunCommand env name args v)))"
    by (rule frame_collectURLs) (simp add: RunCommand_def frame_refl)
  show "execs (trace (snd (collectURLs tool urlSet (RunCommand env name args v)))) = execs (trace v) @ [name]"
    by simp
  show "''[!] '' @ l @ '' error: '' @ e
          \<in> set (LogLines (scanResult (snd (collectURLs tool urlSet (RunCommand env name args v)))))"
    if "errorLabel name = Some l" "snd (runCommand env (length (trace v)) name args) = Some e" for l e
    using that assms(2)[OF that(1)] by (simp add: collectURLs_def RunCommand_def split_beta)
qed

lemma failuresLogged_RunCommand_unlogged:
  assumes "failuresLogged env v" and "errorLabel name = None"
  shows "failuresLogged env (snd (RunCommand env name args v))"
proof (rule failuresLogged_run[OF assms(1), of name args])
  show "frame (ext (EvExec name args) v) (snd (RunCommand env name args v))"
    by (simp add: RunCommand_def frame_refl)
  show "execs (trace (snd (RunCommand env name args v))) = execs (trace v) @ [name]"
    by simp
  show "''[!] '' @ l @ '' error: '' @ e \<in> set (LogLines (scanResult (snd (RunCommand env name args v))))"
    if "errorLabel name = Some l" for l e
    using that assms(2) by simp
qed

lemma failuresLogged_addVulns:
  assumes "failuresLogged env v" and "errorLabel name = None"
  shows "failuresLogged env (addVulns parse (RunCommand env name args v))"
proof (rule failuresLogged_run[OF assms(1), of name args])
  show "frame (ext (EvExec name args) v) (addVulns parse (RunCommand env name args v))"
    by (rule frame_addVulns) (simp add: RunCommand_def frame_refl)
  show "execs (trace (addVulns parse (RunCommand env name args v))) = execs (trace v) @ [name]"
    by simp
  show "''[!] '' @ l @ '' error: '' @ e \<in> set (LogLines (scanResult (addVulns parse (RunCommand env name args v))))"
    if "errorLabel name = Some l" for l e
    using that assms(2) by simp
qed

lemma failuresLogged_AppendLog: "failuresLogged env v \<Longrightarrow> failuresLogged env (AppendLog l v)"
  by (erule failuresLogged_quiet) (simp_all add: frame_AppendLog frame_refl)

lemma failuresLogged_WriteLines: "failuresLogged env v \<Longrightarrow> failuresLogged env (WriteLines ls p v)"
  by (erule failuresLogged_quiet) (simp_all add: frame_WriteLines frame_refl)

lemma failuresLogged_EnumerateSubdomains:
  "failuresLogged env v \<Longrightarrow> failuresLogged env (EnumerateSubdomains env target key outDir v)"
proof -
  assume a: "failuresLogged env v"
  let ?v1 = "AppendLog ''[*] Starting subdomain enumeration...'' v"
  let ?r1 = "RunCommand env ''assetfinder'' [target] ?v1"
  let ?v3 = "logErr ''[!] assetfinder error: '' (snd (fst ?r1)) (snd ?r1)"
  let ?r2 = "RunCommand env ''amass''
      [''enum'', ''-d'', target, ''-passive'', ''-norecursive'', ''-noalts'', ''-timeout'', ''60''] ?v3"
  let ?v5 = "logErr ''[!] amass error: '' (snd (fst ?r2)) (snd ?r2)"
  let ?subs = "uniqueStrings (SplitNL (fst (fst ?r1)) @ SplitNL (fst (fst ?r2)))"
  have 1: "failuresLogged env ?v1" using a by (rule failuresLogged_AppendLog)
  have 3: "failuresLogged env ?v3"
    by (rule failuresLogged_RunCommand_logErr[OF 1]) (simp add: errorLabel_def)
  have 5: "failuresLogged env ?v5"
    by (rule failuresLogged_RunCommand_logErr[OF 3]) (simp add: errorLabel_def)
  have 6: "failuresLogged env (foldl addSubdomain ?v5 ?subs)"
    by (rule failuresLogged_quiet[OF 5])
       (simp_all add: frame_foldl frame_addSubdomain frame_refl execs_foldl)
  have "failuresLogged env (WriteLines ?subs (pathJoin outDir ''subdomains.txt'') (foldl addSubdomain ?v5 ?subs))"
    using 6 by (rule failuresLogged_WriteLines)
  then show ?thesis by (simp add: EnumerateSubdomains_def Let_def split_beta)
qed

lemma failuresLogged_CheckLiveHosts:
  "failuresLogged env v \<Longrightarrow> failuresLogged env (CheckLiveHosts env outDir v)"
  by (erule failuresLogged_quiet) (simp_all add: frame_CheckLiveHosts frame_refl execs_CheckLiveHosts)

lemma failuresLogged_EnrichWithShodan:
  "failuresLogged env v \<Longrightarrow> failuresLogged env (EnrichWithShodan env apiKey outDir v)"
  by (erule failuresLogged_quiet) (simp_all add: frame_EnrichWithShodan frame_refl execs_EnrichWithShodan)

lemma failuresLogged_RunURLScan:
  "failuresLogged env v \<Longrightarrow> failuresLogged env (RunURLScan env target outDir v)"
proof -
  assume a: "failuresLogged env v"
  let ?v1 = "AppendLog ''[*] Running URL scanning tools (hakrawler, gau, waybackurls)...'' v"
  let ?c1 = "collectURLs ''hakrawler'' []
      (RunCommand env ''hakrawler'' [''-url'', ''http://'' @ target, ''-depth'', ''2'', ''-plain''] ?v1)"
  let ?c2 = "collectURLs ''gau'' (fst ?c1) (RunCommand env ''gau'' [''--subs'', target] (snd ?c1))"
  let ?c3 = "collectURLs ''waybackurls'' (fst ?c2)
      (RunCommand env ''bash'' [''-c'', ''echo '' @ target @ '' | waybackurls''] (snd ?c2))"
  let ?urls = "uniqueStrings (mapRange env (length (trace (snd ?c3))) (fst ?c3))"
  let ?v5 = "wr F_AllURLs (\<lambda>r. r\<lparr>AllURLs := ?urls\<rparr>) (snd ?c3)"
  have 1: "failuresLogged env ?v1" using a by (rule failuresLogged_AppendLog)
  have 2: "failuresLogged env (snd ?c1)"
    by (rule failuresLogged_collectURLs[OF 1]) (simp add: errorLabel_def)
  have 3: "failuresLogged env (snd ?c2)"
    by (rule failuresLogged_collectURLs[OF 2]) (simp add: errorLabel_def)
  have 4: "failuresLogged env (snd ?c3)"
    by (rule failuresLogged_collectURLs[OF 3]) (simp add: errorLabel_def)
  have 5: "failuresLogged env ?v5"
    by (rule failuresLogged_quiet[OF 4]) (simp_all add: frame_wr frame_refl)
  have "failuresLogged env
      (AppendLog (''[*] URL scan complete, found '' @ showNat (length ?urls) @ '' URLs'')
         (WriteLines ?urls (pathJoin outDir ''urls.txt'') ?v5))"
    using 5 by (intro failuresLogged_AppendLog failuresLogged_WriteLines)
  then show ?thesis by (simp add: RunURLScan_def Let_def split_beta)
qed

lemma failuresLogged_RunFuzzing:
  "failuresLogged env v \<Longrightarrow> failuresLogged env (RunFuzzing env target outDir v)"
proof -
  assume a: "failuresLogged env v"
  let ?v1 = "AppendLog ''[*] Running ffuf fuzzing...'' v"
  let ?args = "[''-w'', ''/usr/share/seclists/Discovery/Web-Content/api/api-endpoints-res.txt:FUZZ'',
              ''-u'', ''http://'' @ target @ ''/FUZZ'',
              ''-of'', ''json'', ''-o'', pathJoin outDir ''ffuf_results.json'']"
  have 1: "failuresLogged env ?v1" using a by (rule failuresLogged_AppendLog)
  have "failuresLogged env (RunFuzzing env target outDir v)"
  proof (rule failuresLogged_run[OF 1, of "''ffuf''" ?args])
    show "frame (ext (EvExec ''ffuf'' ?args) ?v1) (RunFuzzing env target outDir v)"
      by (auto simp: RunFuzzing_def RunCommand_def Let_def split_beta split: option.splits
            intro!: frame_AppendLog frame_wr frame_refl)
    show "execs (trace (RunFuzzing env target outDir v)) = execs (trace ?v1) @ [''ffuf'']"
      by (simp add: execs_RunFuzzing)
    show "''[!] '' @ l @ '' error: '' @ e \<in> set (LogLines (scanResult (RunFuzzing env target outDir v)))"
      if "errorLabel ''ffuf'' = Some l" "snd (runCommand env (length (trace ?v1)) ''ffuf'' ?args) = Some e" for l e
      using that by (simp add: RunFuzzing_def RunCommand_def Let_def split_beta errorLabel_def)
  qed
  then show ?thesis .
qed

lemma failuresLogged_RunPreVulnTools:
  "failuresLogged env v \<Longrightarrow> failuresLogged env (RunPreVulnTools env target outDir v)"
  unfolding RunPreVulnTools_def Let_def
  by (intro failuresLogged_AppendLog failuresLogged_RunCommand_unlogged) (simp_all add: errorLabel_def)

lemma failuresLogged_RunVulnerabilityScans:
  "failuresLogged env v \<Longrightarrow> failuresLogged env (RunVulnerabilityScans env target outDir v)"
proof -
  assume a: "failuresLogged env v"
  let ?v3 = "addVulns ParseDalfoxOutput (RunCommand env ''dalfox'' [''url'', target]
      (addVulns ParseSqlmapOutput (RunCommand env ''sqlmap'' [''-u'', target, ''--batch'']
         (AppendLog ''[*] Starting vulnerability scanning...'' v))))"
  have 3: "failuresLogged env ?v3"
    using a by (intro failuresLogged_addVulns failuresLogged_AppendLog) (simp_all add: errorLabel_def)
  have 4: "failuresLogged env (AppendLog ''[*] Vulnerability scanning complete.'' ?v3)"
    using 3 by (rule failuresLogged_AppendLog)
  have "failuresLogged env (ext (EvWriteFile (pathJoin outDir ''vulnerabilities.json''))
      (rd F_VulnURLs (AppendLog ''[*] Vulnerability scanning complete.'' ?v3)))"
    by (rule failuresLogged_quiet[OF 4]) (simp_all add: frame_ext frame_rd frame_refl)
  then show ?thesis by (simp add: RunVulnerabilityScans_def Let_def)
qed

lemma failuresLogged_stages:
  "failuresLogged env v \<Longrightarrow> failuresLogged env (stages env target outDir v)"
  unfolding stages_def Let_def
  by (auto intro!: failuresLogged_EnrichWithShodan failuresLogged_RunVulnerabilityScans
        failuresLogged_RunPreVulnTools failuresLogged_RunFuzzing failuresLogged_RunURLScan
        failuresLogged_CheckLiveHosts failuresLogged_EnumerateSubdomains)

lemma failuresLogged_initScan: "failuresLogged env (initScan zeroWorld)"
  by (simp add: failuresLogged_def initScan_def zeroWorld_def allFields_def nth_Cons' split: if_splits)

lemma failuresLogged_worker:
  "failuresLogged env v \<Longrightarrow> failuresLogged env (worker env target outDir v)"
proof -
  assume a: "failuresLogged env v"
  let ?v2 = "stages env target outDir (AppendLog ''========== Starting Scan =========='' v)"
  have 2: "failuresLogged env ?v2"
    using a by (intro failuresLogged_stages failuresLogged_AppendLog)
  show ?thesis
  proof (rule failuresLogged_ext[OF 2])
    show "trace (worker env target outDir v) = trace ?v2 @
      ([EvLock, EvWrite F_Running True, EvWrite F_FinalReport True,
        EvUnlock (scanResult (finalize env target ?v2)),
        EvLock, EvRead F_LogLines True, EvWrite F_LogLines True,
        EvUnlock (scanResult (worker env target outDir v))] @
       map (\<lambda>f. EvRead f False) allFields @ [EvWriteFile (pathJoin outDir ''summary.json'')])"
      by (simp add: worker_def finalize_def PersistResults_def Let_def)
    show "execs ([EvLock, EvWrite F_Running True, EvWrite F_FinalReport True,
        EvUnlock (scanResult (finalize env target ?v2)),
        EvLock, EvRead F_LogLines True, EvWrite F_LogLines True,
        EvUnlock (scanResult (worker env target outDir v))] @
       map (\<lambda>f. EvRead f False) allFields @ [EvWriteFile (pathJoin outDir ''summary.json'')]) = []"
      by (simp add: allFields_def)
    show "set (LogLines (scanResult ?v2)) \<subseteq> set (LogLines (scanResult (worker env target outDir v)))"
      by (auto simp: worker_def finalize_def PersistResults_def Let_def)
  qed
qed

subsection \<open>What every stage does to the outside\<close>

lemma effects_Nil [simp]: "effects [] = []"
  by (simp add: effects_def)

lemma effects_Cons [simp]: "effects (e # es) = (if isEffect e then e # effects es else effects es)"
  by (simp add: effects_def)

lemma effects_append [simp]: "effects (xs @ ys) = effects xs @ effects ys"
  by (simp add: effects_def)

lemma effects_allFields_reads [simp]: "effects (map (\<lambda>f. EvRead f h) allFields) = []"
  by (simp add: allFields_def)

lemma effects_allFields_writes [simp]: "effects (map (\<lambda>f. EvWrite f h) allFields) = []"
  by (simp add: allFields_def)

lemma foldl_keeps: "(\<And>u x. g (f u x) = g u) \<Longrightarrow> g (foldl f v xs) = g v"
  by (induction xs arbitrary: v) simp_all

lemma foldl_snd_keeps:
  "(\<And>a u x. g (snd (f (a, u) x)) = g u) \<Longrightarrow> g (snd (foldl f st xs)) = g (snd st)"
proof (induction xs arbitrary: st)
  case Nil
  show ?case by simp
next
  case (Cons x xs)
  obtain a u where st: "st = (a, u)" by (cases st)
  have "g (snd (f (a, u) x)) = g u" by (rule Cons.prems)
  then show ?case using Cons.IH[OF Cons.prems, of "f st x"] st by simp
qed

lemma effects_logErr [simp]: "effects (trace (logErr pre err v)) = effects (trace v)"
  by (simp add: logErr_def split: option.splits)

lemma effects_addSubdomain [simp]: "effects (trace (addSubdomain u x)) = effects (trace u)"
  by (simp add: addSubdomain_def)

lemma effects_EnumerateSubdomains:
  "effects (trace (EnumerateSubdomains env target key outDir v)) = effects (trace v) @
     [EvExec ''assetfinder'' [target],
      EvExec ''amass'' [''enum'', ''-d'', target, ''-passive'', ''-norecursive'', ''-noalts'', ''-timeout'', ''60''],
      EvWriteFile (pathJoin outDir ''subdomains.txt'')]"
  by (simp add: EnumerateSubdomains_def RunCommand_def Let_def split_beta
        foldl_keeps[of "\<lambda>w. effects (trace w)" addSubdomain])

lemma effects_foldl_checkHost:
  "effects (trace (snd (foldl (checkHost env) st xs))) =
     effects (trace (snd st)) @ map (\<lambda>s. EvLookupIP (Hostname s)) xs"
proof (induction xs arbitrary: st)
  case Nil
  show ?case by simp
next
  case (Cons x xs)
  have "effects (trace (snd (checkHost env st x))) = effects (trace (snd st)) @ [EvLookupIP (Hostname x)]"
    by (cases st) (simp add: checkHost_def isHostAlive_def Let_def)
  then show ?case using Cons.IH[of "checkHost env st x"] by simp
qed

lemma effects_CheckLiveHosts:
  "effects (trace (CheckLiveHosts env outDir v)) = effects (trace v) @
     map (\<lambda>s. EvLookupIP (Hostname s)) (Subdomains (scanResult v)) @
     [EvWriteFile (pathJoin outDir ''live_hosts.txt'')]"
  by (simp add: CheckLiveHosts_def Let_def split_beta effects_foldl_checkHost)

lemma effects_collectURLs [simp]:
  "effects (trace (snd (collectURLs tool urlSet res))) = effects (trace (snd res))"
  by (simp add: collectURLs_def split_beta split: option.splits)

lemma effects_RunCommand [simp]:
  "effects (trace (snd (RunCommand env name args v))) = effects (trace v) @ [EvExec name args]"
  by (simp add: RunCommand_def)

lemma effects_RunURLScan:
  "effects (trace (RunURLScan env target outDir v)) = effects (trace v) @
     [EvExec ''hakrawler'' [''-url'', ''http://'' @ target, ''-depth'', ''2'', ''-plain''],
      EvExec ''gau'' [''--subs'', target],
      EvExec ''bash'' [''-c'', ''echo '' @ target @ '' | waybackurls''],
      EvWriteFile (pathJoin outDir ''urls.txt'')]"
  by (simp add: RunURLScan_def Let_def split_beta)

lemma effects_RunFuzzing:
  "effects (trace (RunFuzzing env target outDir v)) = effects (trace v) @
     [EvExec ''ffuf''
        [''-w'', ''/usr/share/seclists/Discovery/Web-Content/api/api-endpoints-res.txt:FUZZ'',
         ''-u'', ''http://'' @ target @ ''/FUZZ'',
         ''-of'', ''json'', ''-o'', pathJoin outDir ''ffuf_results.json'']]"
  by (simp add: RunFuzzing_def RunCommand_def Let_def split_beta split: option.splits)

lemma effects_RunPreVulnTools:
  "effects (trace (RunPreVulnTools env target outDir v)) = effects (trace v) @
     [EvExec ''JSFinder'' [''-u'', target, ''-o'', pathJoin outDir ''endpoints.txt''],
      EvExec ''paramspider'' [''--domain'', target, ''--level'', ''2''],
      EvExec ''paramwizard'' [''-t'', target]]"
  by (simp add: RunPreVulnTools_def Let_def)

lemma effects_addVulns [simp]: "effects (trace (addVulns parse res)) = effects (trace (snd res))"
  by (simp add: addVulns_def split_beta split: option.splits)

lemma effects_RunVulnerabilityScans:
  "effects (trace (RunVulnerabilityScans env target outDir v)) = effects (trace v) @
     [EvExec ''sqlmap'' [''-u'', target, ''--batch''],
      EvExec ''dalfox'' [''url'', target],
      EvWriteFile (pathJoin outDir ''vulnerabilities.json'')]"
  by (simp add: RunVulnerabilityScans_def Let_def)

lemma foldl_resolveHost:
  "trace (snd (foldl (resolveHost env) st xs)) = trace (snd st) @ map (\<lambda>s. EvLookupIP (Hostname s)) xs
   \<and> fst (foldl (resolveHost env) st xs) =
       fst st @ lookupAnswers env (length (trace (snd st))) (map Hostname xs)
   \<and> scanResult (snd (foldl (resolveHost env) st xs)) = scanResult (snd st)
   \<and> holding (snd (foldl (resolveHost env) st xs)) = holding (snd st)"
proof (induction xs arbitrary: st)
  case Nil
  show ?case by simp
next
  case (Cons x xs)
  obtain a u where st: "st = (a, u)" by (cases st)
  have s: "trace (snd (resolveHost env st x)) = trace u @ [EvLookupIP (Hostname x)]"
    "fst (resolveHost env st x) = a @
       (case lookupIP env (length (trace u)) (Hostname x) of None \<Rightarrow> []
        | Some ipsFound \<Rightarrow> map fst (filter snd ipsFound))"
    "scanResult (snd (resolveHost env st x)) = scanResult u"
    "holding (snd (resolveHost env st x)) = holding u"
    unfolding st by (simp_all add: resolveHost_def split: option.splits)
  show ?case using Cons.IH[of "resolveHost env st x"] s st by simp
qed

lemma effects_foldl_enrichIP:
  "apiKey \<noteq> [] \<Longrightarrow>
   effects (trace (foldl (enrichIP env apiKey) u ips)) = effects (trace u) @
     map (\<lambda>ip. EvHTTPGet (''https://api.shodan.io/shodan/host/'' @ ip @ ''?key='' @ apiKey)) ips"
proof (induction ips arbitrary: u)
  case Nil
  show ?case by simp
next
  case (Cons ip ips)
  have "effects (trace (enrichIP env apiKey u ip)) = effects (trace u) @
      [EvHTTPGet (''https://api.shodan.io/shodan/host/'' @ ip @ ''?key='' @ apiKey)]"
    using Cons.prems by (simp add: enrichIP_def ShodanLookup_def Let_def split: option.splits)
  then show ?case using Cons.IH[OF Cons.prems, of "enrichIP env apiKey u ip"] by simp
qed

text \<open>
  The enrichment stage: a quiet start, one lookup per known subdomain, then one request
  per distinct IPv4 address these lookups were answered with, then the file.
\<close>

lemma trace_EnrichWithShodan:
  assumes "apiKey \<noteq> []"
  shows "\<exists>pre post. trace (EnrichWithShodan env apiKey outDir v) =
           (trace v @ pre) @ map (\<lambda>s. EvLookupIP (Hostname s)) (Subdomains (scanResult v)) @ post
         \<and> effects pre = []
         \<and> effects post =
             map (\<lambda>ip. EvHTTPGet (''https://api.shodan.io/shodan/host/'' @ ip @ ''?key='' @ apiKey))
               (uniqueStrings (lookupAnswers env (length (trace v @ pre))
                  (map Hostname (Subdomains (scanResult v)))))
             @ [EvWriteFile (pathJoin outDir ''enrichment.json'')]"
proof -
  let ?w2 = "rd F_Subdomains (AppendLog ''[*] Starting Shodan enrichment...'' v)"
  let ?subs = "Subdomains (scanResult v)"
  let ?r = "foldl (resolveHost env) ([], ?w2) ?subs"
  let ?ips = "uniqueStrings (fst ?r)"
  let ?w4 = "foldl (enrichIP env apiKey) (snd ?r) ?ips"
  obtain pre where pre: "trace ?w2 = trace v @ pre" and epre: "effects pre = []" by simp
  have fr: "trace (snd ?r) = trace ?w2 @ map (\<lambda>s. EvLookupIP (Hostname s)) ?subs"
    and fi: "fst ?r = lookupAnswers env (length (trace ?w2)) (map Hostname ?subs)"
    using foldl_resolveHost[of env "([], ?w2)" ?subs] by simp_all
  have f4: "frame (snd ?r) ?w4" by (rule frame_foldl[OF frame_enrichIP frame_refl])
  then obtain t4 where t4: "trace ?w4 = trace (snd ?r) @ t4" unfolding frame_def by blast
  have "effects (trace ?w4) = effects (trace (snd ?r)) @
      map (\<lambda>ip. EvHTTPGet (''https://api.shodan.io/shodan/host/'' @ ip @ ''?key='' @ apiKey)) ?ips"
    by (rule effects_foldl_enrichIP[OF assms])
  then have e4: "effects t4 =
      map (\<lambda>ip. EvHTTPGet (''https://api.shodan.io/shodan/host/'' @ ip @ ''?key='' @ apiKey)) ?ips"
    unfolding t4 by simp
  have S: "Subdomains (scanResult ?w2) = ?subs" by simp
  have "EnrichWithShodan env apiKey outDir v =
      AppendLog ''[*] Shodan enrichment complete.''
        (ext (EvWriteFile (pathJoin outDir ''enrichment.json'')) ?w4)"
    by (simp add: EnrichWithShodan_def Let_def split_beta)
  then obtain t5 where t5: "trace (EnrichWithShodan env apiKey outDir v) =
       trace ?w4 @ EvWriteFile (pathJoin outDir ''enrichment.json'') # t5" and e5: "effects t5 = []"
    by simp
  let ?post = "t4 @ EvWriteFile (pathJoin outDir ''enrichment.json'') # t5"
  have A: "trace (EnrichWithShodan env apiKey outDir v) =
           (trace v @ pre) @ map (\<lambda>s. EvLookupIP (Hostname s)) ?subs @ ?post"
    unfolding t5 t4 fr pre by simp
  have B: "effects ?post =
             map (\<lambda>ip. EvHTTPGet (''https://api.shodan.io/shodan/host/'' @ ip @ ''?key='' @ apiKey))
               (uniqueStrings (lookupAnswers env (length (trace v @ pre)) (map Hostname ?subs)))
             @ [EvWriteFile (pathJoin outDir ''enrichment.json'')]"
    using e4 e5 fi[unfolded pre] by simp
  show ?thesis using A epre B by blast
qed

subsection \<open>The subdomains after the first stage\<close>

lemma scanResult_snd_RunCommand [simp]: "scanResult (snd (RunCommand env name args v)) = scanResult v"
  by (simp add: RunCommand_def)

lemma Subdomains_CheckLiveHosts:
  "Subdomains (scanResult (CheckLiveHosts env outDir v)) = Subdomains (scanResult v)"
proof -
  have "Subdomains (scanResult (snd (checkHost env (a, u) x))) = Subdomains (scanResult u)" for a u x
    by (simp add: checkHost_def isHostAlive_def Let_def)
  then show ?thesis
    using foldl_snd_keeps[of "\<lambda>w. Subdomains (scanResult w)" "checkHost env"]
    by (simp add: CheckLiveHosts_def Let_def split_beta)
qed

lemma Subdomains_collectURLs [simp]:
  "Subdomains (scanResult (snd (collectURLs tool urlSet res))) = Subdomains (scanResult (snd res))"
  by (simp add: collectURLs_def split_beta split: option.splits)

lemma Subdomains_RunURLScan:
  "Subdomains (scanResult (RunURLScan env target outDir v)) = Subdomains (scanResult v)"
  by (simp add: RunURLScan_def Let_def split_beta)

lemma Subdomains_RunFuzzing:
  "Subdomains (scanResult (RunFuzzing env target outDir v)) = Subdomains (scanResult v)"
  by (simp add: RunFuzzing_def RunCommand_def Let_def split_beta split: option.splits)

lemma Subdomains_RunPreVulnTools:
  "Subdomains (scanResult (RunPreVulnTools env target outDir v)) = Subdomains (scanResult v)"
  by (simp add: RunPreVulnTools_def Let_def)

lemma Subdomains_addVulns [simp]:
  "Subdomains (scanResult (addVulns parse res)) = Subdomains (scanResult (snd res))"
  by (simp add: addVulns_def split_beta split: option.splits)

lemma Subdomains_RunVulnerabilityScans:
  "Subdomains (scanResult (RunVulnerabilityScans env target outDir v)) = Subdomains (scanResult v)"
  by (simp add: RunVulnerabilityScans_def Let_def)

lemma Subdomains_EnrichWithShodan:
  "Subdomains (scanResult (EnrichWithShodan env apiKey outDir v)) = Subdomains (scanResult v)"
proof -
  have e: "Subdomains (scanResult (enrichIP env apiKey u ip)) = Subdomains (scanResult u)" for u ip
    by (simp add: enrichIP_def ShodanLookup_def Let_def split: option.splits)
  show ?thesis
    using foldl_keeps[of "\<lambda>w. Subdomains (scanResult w)" "enrichIP env apiKey", OF e]
      foldl_resolveHost[of env]
    by (simp add: EnrichWithShodan_def Let_def split_beta)
qed

subsection \<open>The log lines of every stage\<close>

lemma frame_logs: "frame a b \<Longrightarrow> \<exists>r. LogLines (scanResult b) = LogLines (scanResult a) @ r"
  unfolding frame_def prefix_def by blast

lemma logs_EnumerateSubdomains:
  "\<exists>r. LogLines (scanResult (EnumerateSubdomains env target key outDir v)) =
     LogLines (scanResult v) @ ''[*] Starting subdomain enumeration...'' # r"
proof -
  have "frame (AppendLog ''[*] Starting subdomain enumeration...'' v)
          (EnumerateSubdomains env target key outDir v)"
    unfolding EnumerateSubdomains_def RunCommand_def Let_def split_beta fst_conv snd_conv
    by (intro frame_refl frame_WriteLines frame_foldl frame_addSubdomain frame_logErr frame_ext) simp_all
  from frame_logs[OF this] show ?thesis by simp
qed

lemma logs_CheckLiveHosts:
  "\<exists>r. LogLines (scanResult (CheckLiveHosts env outDir v)) =
     LogLines (scanResult v) @ ''[*] Checking live hosts...'' # r"
proof -
  let ?v1 = "AppendLog ''[*] Checking live hosts...'' v"
  let ?w2 = "rd F_Subdomains ?v1"
  let ?r = "foldl (checkHost env) ([], ?w2) (Subdomains (scanResult ?w2))"
  have "frame ?v1 ?w2" by (intro frame_rd frame_refl)
  then have "frame ?v1 (snd ?r)"
    using frame_foldl_snd[of "checkHost env" ?v1 "([], ?w2)"] frame_checkHost by simp
  then have "frame ?v1 (WriteLines (fst ?r) (pathJoin outDir ''live_hosts.txt'') (snd ?r))"
    by (rule frame_WriteLines)
  then have "frame ?v1 (CheckLiveHosts env outDir v)"
    by (simp add: CheckLiveHosts_def Let_def split_beta)
  from frame_logs[OF this] show ?thesis by simp
qed

lemma logs_RunURLScan:
  "\<exists>r n. LogLines (scanResult (RunURLScan env target outDir v)) =
     LogLines (scanResult v) @ ''[*] Running URL scanning tools (hakrawler, gau, waybackurls)...'' # r
       @ [''[*] URL scan complete, found '' @ showNat n @ '' URLs'']"
proof -
  let ?v1 = "AppendLog ''[*] Running URL scanning tools (hakrawler, gau, waybackurls)...'' v"
  let ?c1 = "collectURLs ''hakrawler'' []
      (RunCommand env ''hakrawler'' [''-url'', ''http://'' @ target, ''-depth'', ''2'', ''-plain''] ?v1)"
  let ?c2 = "collectURLs ''gau'' (fst ?c1) (RunCommand env ''gau'' [''--subs'', target] (snd ?c1))"
  let ?c3 = "collectURLs ''waybackurls'' (fst ?c2)
      (RunCommand env ''bash'' [''-c'', ''echo '' @ target @ '' | waybackurls''] (snd ?c2))"
  let ?urls = "uniqueStrings (mapRange env (length (trace (snd ?c3))) (fst ?c3))"
  have "frame ?v1 (snd ?c3)"
    by (intro frame_collectURLs frame_RunCommand frame_refl)
  from frame_logs[OF this] obtain r where r: "LogLines (scanResult (snd ?c3)) =
      LogLines (scanResult v) @ ''[*] Running URL scanning tools (hakrawler, gau, waybackurls)...'' # r"
    by auto
  have "LogLines (scanResult (RunURLScan env target outDir v)) =
      LogLines (scanResult (snd ?c3)) @ [''[*] URL scan complete, found '' @ showNat (length ?urls) @ '' URLs'']"
    by (simp add: RunURLScan_def Let_def split_beta)
  then have "LogLines (scanResult (RunURLScan env target outDir v)) =
      LogLines (scanResult v) @ ''[*] Running URL scanning tools (hakrawler, gau, waybackurls)...'' # r
       @ [''[*] URL scan complete, found '' @ showNat (length ?urls) @ '' URLs'']"
    unfolding r by simp
  then show ?thesis by blast
qed

lemma logs_RunFuzzing:
  "\<exists>x. LogLines (scanResult (RunFuzzing env target outDir v)) =
     LogLines (scanResult v) @ [''[*] Running ffuf fuzzing...'', x]"
  by (simp add: RunFuzzing_def RunCommand_def Let_def split_beta split: option.splits)

lemma logs_EnrichWithShodan:
  "\<exists>r. LogLines (scanResult (EnrichWithShodan env apiKey outDir v)) =
     LogLines (scanResult v) @ ''[*] Starting Shodan enrichment...'' # r
       @ [''[*] Shodan enrichment complete.'']"
proof -
  let ?v1 = "AppendLog ''[*] Starting Shodan enrichment...'' v"
  let ?w2 = "rd F_Subdomains ?v1"
  let ?r = "foldl (resolveHost env) ([], ?w2) (Subdomains (scanResult ?w2))"
  let ?w4 = "foldl (enrichIP env apiKey) (snd ?r) (uniqueStrings (fst ?r))"
  have "frame ?v1 ?w2" by (intro frame_rd frame_refl)
  then have "frame ?v1 (snd ?r)"
    using frame_foldl_snd[of "resolveHost env" ?v1 "([], ?w2)"] frame_resolveHost by simp
  then have "frame ?v1 ?w4"
    using frame_foldl[of "enrichIP env apiKey" ?v1 "snd ?r"] frame_enrichIP by simp
  from frame_logs[OF this] obtain r where r: "LogLines (scanResult ?w4) =
      LogLines (scanResult v) @ ''[*] Starting Shodan enrichment...'' # r"
    by auto
  have "LogLines (scanResult (EnrichWithShodan env apiKey outDir v)) =
      LogLines (scanResult ?w4) @ [''[*] Shodan enrichment complete.'']"
    by (simp add: EnrichWithShodan_def Let_def split_beta)
  then have "LogLines (scanResult (EnrichWithShodan env apiKey outDir v)) =
     LogLines (scanResult v) @ ''[*] Starting Shodan enrichment...'' # r
       @ [''[*] Shodan enrichment complete.'']"
    unfolding r by simp
  then show ?thesis by blast
qed

subsection \<open>The end of the run\<close>

lemma scanResult_worker:
  "scanResult (worker env target outDir w0) =
     (scanResult (stages env target outDir (AppendLog ''========== Starting Scan =========='' w0)))
       \<lparr>Running := False,
        FinalReport := ''Final report for '' @ target @ '' generated at '' @
          now env (Suc (Suc (length (trace (stages env target outDir
                 (AppendLog ''========== Starting Scan =========='' w0)))))),
        LogLines := LogLines (scanResult (stages env target outDir
                 (AppendLog ''========== Starting Scan =========='' w0))) @
          [''========== Scan Complete ==========''] \<rparr>"
  by (simp add: worker_def finalize_def PersistResults_def Let_def)

lemma execs_worker:
  "execs (trace (worker env target outDir w0)) = execs (trace w0) @
     [''assetfinder'', ''amass'', ''hakrawler'', ''gau'', ''bash'', ''ffuf'',
      ''JSFinder'', ''paramspider'', ''paramwizard'', ''sqlmap'', ''dalfox'']"
  by (simp add: worker_def finalize_def PersistResults_def Let_def execs_stages allFields_def)

lemma execs_initScan: "execs (trace (initScan zeroWorld)) = []"
  by (simp add: initScan_def zeroWorld_def allFields_def)

lemma RunPreVulnTools_logs:
  "LogLines (scanResult (RunPreVulnTools env target outDir v)) = LogLines (scanResult v) @
     [''[*] Running JSFINDER, ParamSpider, and ParamWizard...'',
      ''[*] Pre-vulnerability endpoint discovery complete.'']"
  by (simp add: RunPreVulnTools_def Let_def)

lemma RunVulnerabilityScans_logs:
  "LogLines (scanResult (RunVulnerabilityScans env target outDir v)) = LogLines (scanResult v) @
     [''[*] Starting vulnerability scanning...'', ''[*] Vulnerability scanning complete.'']"
  by (simp add: RunVulnerabilityScans_def Let_def addVulns_def split_beta split: option.splits)


lemma stages_unfold:
  "stages env target outDir v =
     (if getenv env ''SHODAN_API_KEY'' \<noteq> [] then
        EnrichWithShodan env (getenv env ''SHODAN_API_KEY'') outDir
          (RunVulnerabilityScans env target outDir
            (RunPreVulnTools env target outDir
              (RunFuzzing env target outDir
                (RunURLScan env target outDir
                  (CheckLiveHosts env outDir
                    (EnumerateSubdomains env target (getenv env ''PDCHAOS_KEY'') outDir v))))))
      else
        RunVulnerabilityScans env target outDir
          (RunPreVulnTools env target outDir
            (RunFuzzing env target outDir
              (RunURLScan env target outDir
                (CheckLiveHosts env outDir
                  (EnumerateSubdomains env target (getenv env ''PDCHAOS_KEY'') outDir v))))))"
  by (simp add: stages_def Let_def)

text \<open>The first six stages, from any state.\<close>

lemma effects_six_stages:
  "effects (trace (RunVulnerabilityScans env target outDir (RunPreVulnTools env target outDir
       (RunFuzzing env target outDir (RunURLScan env target outDir (CheckLiveHosts env outDir
         (EnumerateSubdomains env target (getenv env ''PDCHAOS_KEY'') outDir v))))))) =
     effects (trace v) @ scanEffects target outDir (map Hostname (Subdomains (scanResult (EnumerateSubdomains env target (getenv env ''PDCHAOS_KEY'') outDir v))))"
  by (simp add: effects_RunVulnerabilityScans effects_RunPreVulnTools effects_RunFuzzing
        effects_RunURLScan effects_CheckLiveHosts effects_EnumerateSubdomains scanEffects_def comp_def)

lemma Subdomains_six_stages:
  "Subdomains (scanResult (RunVulnerabilityScans env target outDir (RunPreVulnTools env target outDir
       (RunFuzzing env target outDir (RunURLScan env target outDir (CheckLiveHosts env outDir
         (EnumerateSubdomains env target (getenv env ''PDCHAOS_KEY'') outDir v))))))) = Subdomains (scanResult (EnumerateSubdomains env target (getenv env ''PDCHAOS_KEY'') outDir v))"
  by (simp add: Subdomains_RunVulnerabilityScans Subdomains_RunPreVulnTools Subdomains_RunFuzzing
        Subdomains_RunURLScan Subdomains_CheckLiveHosts)

lemma logs_six_stages:
  "\<exists>r1 r2 r3 n x. LogLines (scanResult (RunVulnerabilityScans env target outDir (RunPreVulnTools env target outDir
       (RunFuzzing env target outDir (RunURLScan env target outDir (CheckLiveHosts env outDir
         (EnumerateSubdomains env target (getenv env ''PDCHAOS_KEY'') outDir v))))))) = LogLines (scanResult v) @
           [''[*] Starting subdomain enumeration...''] @ r1
           @ [''[*] Checking live hosts...''] @ r2
           @ [''[*] Running URL scanning tools (hakrawler, gau, waybackurls)...''] @ r3
           @ [''[*] URL scan complete, found '' @ showNat n @ '' URLs'',
              ''[*] Running ffuf fuzzing...'', x,
              ''[*] Running JSFINDER, ParamSpider, and ParamWizard...'',
              ''[*] Pre-vulnerability endpoint discovery complete.'',
              ''[*] Starting vulnerability scanning...'',
              ''[*] Vulnerability scanning complete.'']"
proof -
  let ?va = "(EnumerateSubdomains env target (getenv env ''PDCHAOS_KEY'') outDir v)"
  obtain r1 where l1: "LogLines (scanResult ?va) = LogLines (scanResult v) @
      ''[*] Starting subdomain enumeration...'' # r1"
    using logs_EnumerateSubdomains by blast
  let ?vb = "CheckLiveHosts env outDir ?va"
  obtain r2 where l2: "LogLines (scanResult ?vb) = LogLines (scanResult ?va) @
      ''[*] Checking live hosts...'' # r2"
    using logs_CheckLiveHosts by blast
  let ?vc = "RunURLScan env target outDir ?vb"
  obtain r3 n where l3: "LogLines (scanResult ?vc) = LogLines (scanResult ?vb) @
      ''[*] Running URL scanning tools (hakrawler, gau, waybackurls)...'' # r3
       @ [''[*] URL scan complete, found '' @ showNat n @ '' URLs'']"
    using logs_RunURLScan by blast
  let ?vd = "RunFuzzing env target outDir ?vc"
  obtain x where l4: "LogLines (scanResult ?vd) = LogLines (scanResult ?vc) @ [''[*] Running ffuf fuzzing...'', x]"
    using logs_RunFuzzing by blast
  have "LogLines (scanResult (RunVulnerabilityScans env target outDir (RunPreVulnTools env target outDir
       (RunFuzzing env target outDir (RunURLScan env target outDir (CheckLiveHosts env outDir
         (EnumerateSubdomains env target (getenv env ''PDCHAOS_KEY'') outDir v))))))) = LogLines (scanResult v) @
           [''[*] Starting subdomain enumeration...''] @ r1
           @ [''[*] Checking live hosts...''] @ r2
           @ [''[*] Running URL scanning tools (hakrawler, gau, waybackurls)...''] @ r3
           @ [''[*] URL scan complete, found '' @ showNat n @ '' URLs'',
              ''[*] Running ffuf fuzzing...'', x,
              ''[*] Running JSFINDER, ParamSpider, and ParamWizard...'',
              ''[*] Pre-vulnerability endpoint discovery complete.'',
              ''[*] Starting vulnerability scanning...'',
              ''[*] Vulnerability scanning complete.'']"
    unfolding RunVulnerabilityScans_logs RunPreVulnTools_logs l4 l3 l2 l1 by simp
  then show ?thesis by blast
qed

lemma trace_worker:
  "\<exists>s1 s2. trace (worker env target outDir w0) =
     trace (stages env target outDir (AppendLog ''========== Starting Scan =========='' w0)) @
     [EvLock, EvWrite F_Running True, EvWrite F_FinalReport True, EvUnlock s1,
      EvLock, EvRead F_LogLines True, EvWrite F_LogLines True, EvUnlock s2] @
     map (\<lambda>f. EvRead f False) allFields @ [EvWriteFile (pathJoin outDir ''summary.json'')]
     \<and> \<not> Running s1 \<and> FinalReport s1 \<noteq> [] \<and> s2 = scanResult (worker env target outDir w0)"
  by (simp add: worker_def finalize_def PersistResults_def Let_def)

lemma effects_AppendLog [simp]: "effects (trace (AppendLog l v)) = effects (trace v)"
  by (simp add: AppendLog_def)

lemma effects_initScan: "effects (trace (initScan zeroWorld)) = []"
  by (simp add: initScan_def zeroWorld_def)

lemma LogLines_initScan: "LogLines (scanResult (initScan zeroWorld)) = []"
  by (simp add: initScan_def zeroScanResult_def)

lemma effects_worker_tail:
  "\<exists>t. trace (worker env target outDir w0) = trace (stages env target outDir (AppendLog ''========== Starting Scan =========='' w0)) @ t
       \<and> effects t = [EvWriteFile (pathJoin outDir ''summary.json'')]"
proof -
  obtain s1 s2 where "trace (worker env target outDir w0) =
     trace (stages env target outDir (AppendLog ''========== Starting Scan =========='' w0)) @
     ([EvLock, EvWrite F_Running True, EvWrite F_FinalReport True, EvUnlock s1,
      EvLock, EvRead F_LogLines True, EvWrite F_LogLines True, EvUnlock s2] @
     map (\<lambda>f. EvRead f False) allFields @ [EvWriteFile (pathJoin outDir ''summary.json'')])"
    using trace_worker[of env target outDir w0] by auto
  moreover have "effects ([EvLock, EvWrite F_Running True, EvWrite F_FinalReport True, EvUnlock s1,
      EvLock, EvRead F_LogLines True, EvWrite F_LogLines True, EvUnlock s2] @
     map (\<lambda>f. EvRead f False) allFields @ [EvWriteFile (pathJoin outDir ''summary.json'')])
     = [EvWriteFile (pathJoin outDir ''summary.json'')]"
    by simp
  ultimately show ?thesis by blast
qed

lemma Subdomains_worker:
  "Subdomains (scanResult (worker env target outDir w0)) = Subdomains (scanResult (EnumerateSubdomains env target (getenv env ''PDCHAOS_KEY'') outDir (AppendLog ''========== Starting Scan =========='' w0)))"
  by (simp add: scanResult_worker stages_unfold Subdomains_EnrichWithShodan Subdomains_six_stages)

lemma effects_worker_nokey:
  assumes "getenv env ''SHODAN_API_KEY'' = []" and "effects (trace w0) = []"
  shows "effects (trace (worker env target outDir w0)) =
     scanEffects target outDir (map Hostname (Subdomains (scanResult (worker env target outDir w0))))
     @ [EvWriteFile (pathJoin outDir ''summary.json'')]"
proof -
  obtain t where t: "trace (worker env target outDir w0) = trace (stages env target outDir (AppendLog ''========== Starting Scan =========='' w0)) @ t"
    and e: "effects t = [EvWriteFile (pathJoin outDir ''summary.json'')]"
    using effects_worker_tail by blast
  have s: "stages env target outDir (AppendLog ''========== Starting Scan =========='' w0) = (RunVulnerabilityScans env target outDir (RunPreVulnTools env target outDir
       (RunFuzzing env target outDir (RunURLScan env target outDir (CheckLiveHosts env outDir
         (EnumerateSubdomains env target (getenv env ''PDCHAOS_KEY'') outDir (AppendLog ''========== Starting Scan =========='' w0)))))))"
    using assms(1) by (simp add: stages_unfold)
  show ?thesis
    unfolding t s Subdomains_worker by (simp add: e effects_six_stages assms(2))
qed

lemma trace_worker_key:
  assumes "getenv env ''SHODAN_API_KEY'' \<noteq> []" and "effects (trace w0) = []"
  shows "\<exists>pre post. trace (worker env target outDir w0) =
           pre @ map EvLookupIP (map Hostname (Subdomains (scanResult (worker env target outDir w0)))) @ post
     \<and> effects pre =
         scanEffects target outDir (map Hostname (Subdomains (scanResult (worker env target outDir w0))))
     \<and> effects post =
         map (\<lambda>ip. EvHTTPGet (''https://api.shodan.io/shodan/host/'' @ ip @ ''?key='' @ getenv env ''SHODAN_API_KEY''))
           (uniqueStrings (lookupAnswers env (length pre)
              (map Hostname (Subdomains (scanResult (worker env target outDir w0))))))
         @ [EvWriteFile (pathJoin outDir ''enrichment.json''),
            EvWriteFile (pathJoin outDir ''summary.json'')]"
proof -
  let ?key = "getenv env ''SHODAN_API_KEY''"
  let ?vf = "(RunVulnerabilityScans env target outDir (RunPreVulnTools env target outDir
       (RunFuzzing env target outDir (RunURLScan env target outDir (CheckLiveHosts env outDir
         (EnumerateSubdomains env target (getenv env ''PDCHAOS_KEY'') outDir (AppendLog ''========== Starting Scan =========='' w0)))))))"
  let ?hosts = "map Hostname (Subdomains (scanResult ?vf))"
  obtain t where t: "trace (worker env target outDir w0) = trace (stages env target outDir (AppendLog ''========== Starting Scan =========='' w0)) @ t"
    and e: "effects t = [EvWriteFile (pathJoin outDir ''summary.json'')]"
    using effects_worker_tail by blast
  have s: "stages env target outDir (AppendLog ''========== Starting Scan =========='' w0) = EnrichWithShodan env ?key outDir ?vf"
    using assms(1) by (simp add: stages_unfold)
  obtain pre post where a: "trace (EnrichWithShodan env ?key outDir ?vf) =
           (trace ?vf @ pre) @ map (\<lambda>s. EvLookupIP (Hostname s)) (Subdomains (scanResult ?vf)) @ post"
    and b: "effects pre = []"
    and c: "effects post =
             map (\<lambda>ip. EvHTTPGet (''https://api.shodan.io/shodan/host/'' @ ip @ ''?key='' @ ?key))
               (uniqueStrings (lookupAnswers env (length (trace ?vf @ pre)) ?hosts))
             @ [EvWriteFile (pathJoin outDir ''enrichment.json'')]"
    using trace_EnrichWithShodan[OF assms(1), of env outDir ?vf] by blast
  have h: "map Hostname (Subdomains (scanResult (worker env target outDir w0))) = ?hosts"
    by (simp add: Subdomains_worker Subdomains_six_stages)
  have A: "trace (worker env target outDir w0) = (trace ?vf @ pre) @ map EvLookupIP ?hosts @ (post @ t)"
    unfolding t s a by (simp add: comp_def)
  have B: "effects (trace ?vf @ pre) = scanEffects target outDir ?hosts"
    by (simp add: b effects_six_stages assms(2) Subdomains_six_stages)
  have C: "effects (post @ t) =
         map (\<lambda>ip. EvHTTPGet (''https://api.shodan.io/shodan/host/'' @ ip @ ''?key='' @ ?key))
           (uniqueStrings (lookupAnswers env (length (trace ?vf @ pre)) ?hosts))
         @ [EvWriteFile (pathJoin outDir ''enrichment.json''),
            EvWriteFile (pathJoin outDir ''summary.json'')]"
    by (simp add: c e)
  show ?thesis unfolding h using A B C by blast
qed

lemma logs_worker:
  "\<exists>r1 r2 r3 n x r7. LogLines (scanResult (worker env target outDir w0)) =
     LogLines (scanResult w0) @
     [''========== Starting Scan =========='',
      ''[*] Starting subdomain enumeration...''] @ r1
     @ [''[*] Checking live hosts...''] @ r2
     @ [''[*] Running URL scanning tools (hakrawler, gau, waybackurls)...''] @ r3
     @ [''[*] URL scan complete, found '' @ showNat n @ '' URLs'',
        ''[*] Running ffuf fuzzing...'', x,
        ''[*] Running JSFINDER, ParamSpider, and ParamWizard...'',
        ''[*] Pre-vulnerability endpoint discovery complete.'',
        ''[*] Starting vulnerability scanning...'',
        ''[*] Vulnerability scanning complete.'']
     @ (if getenv env ''SHODAN_API_KEY'' = [] then []
        else [''[*] Starting Shodan enrichment...''] @ r7 @ [''[*] Shodan enrichment complete.''])
     @ [''========== Scan Complete =========='']"
proof -
  let ?key = "getenv env ''SHODAN_API_KEY''"
  let ?vf = "(RunVulnerabilityScans env target outDir (RunPreVulnTools env target outDir
       (RunFuzzing env target outDir (RunURLScan env target outDir (CheckLiveHosts env outDir
         (EnumerateSubdomains env target (getenv env ''PDCHAOS_KEY'') outDir (AppendLog ''========== Starting Scan =========='' w0)))))))"
  have l0: "LogLines (scanResult (AppendLog ''========== Starting Scan =========='' w0)) = LogLines (scanResult w0) @ [''========== Starting Scan =========='']"
    by (simp add: AppendLog_def)
  obtain r1 r2 r3 n x where l6: "LogLines (scanResult ?vf) = LogLines (scanResult (AppendLog ''========== Starting Scan =========='' w0)) @
           [''[*] Starting subdomain enumeration...''] @ r1
           @ [''[*] Checking live hosts...''] @ r2
           @ [''[*] Running URL scanning tools (hakrawler, gau, waybackurls)...''] @ r3
           @ [''[*] URL scan complete, found '' @ showNat n @ '' URLs'',
              ''[*] Running ffuf fuzzing...'', x,
              ''[*] Running JSFINDER, ParamSpider, and ParamWizard...'',
              ''[*] Pre-vulnerability endpoint discovery complete.'',
              ''[*] Starting vulnerability scanning...'',
              ''[*] Vulnerability scanning complete.'']"
    using logs_six_stages[of env target outDir "(AppendLog ''========== Starting Scan =========='' w0)"] by blast
  obtain r7 where l7: "LogLines (scanResult (EnrichWithShodan env ?key outDir ?vf)) =
     LogLines (scanResult ?vf) @ ''[*] Starting Shodan enrichment...'' # r7
       @ [''[*] Shodan enrichment complete.'']"
    using logs_EnrichWithShodan by blast
  have "LogLines (scanResult (worker env target outDir w0)) =
     LogLines (scanResult w0) @
     [''========== Starting Scan =========='',
      ''[*] Starting subdomain enumeration...''] @ r1
     @ [''[*] Checking live hosts...''] @ r2
     @ [''[*] Running URL scanning tools (hakrawler, gau, waybackurls)...''] @ r3
     @ [''[*] URL scan complete, found '' @ showNat n @ '' URLs'',
        ''[*] Running ffuf fuzzing...'', x,
        ''[*] Running JSFINDER, ParamSpider, and ParamWizard...'',
        ''[*] Pre-vulnerability endpoint discovery complete.'',
        ''[*] Starting vulnerability scanning...'',
        ''[*] Vulnerability scanning complete.'']
     @ (if getenv env ''SHODAN_API_KEY'' = [] then []
        else [''[*] Starting Shodan enrichment...''] @ r7 @ [''[*] Shodan enrichment complete.''])
     @ [''========== Scan Complete =========='']"
  proof (cases "?key = []")
    case True
    then have s: "stages env target outDir (AppendLog ''========== Starting Scan =========='' w0) = ?vf" by (simp add: stages_unfold)
    show ?thesis unfolding scanResult_worker s using True by (simp add: l6 l0)
  next
    case False
    then have s: "stages env target outDir (AppendLog ''========== Starting Scan =========='' w0) = EnrichWithShodan env ?key outDir ?vf"
      by (simp add: stages_unfold)
    show ?thesis unfolding scanResult_worker s using False by (simp add: l7 l6 l0)
  qed
  then show ?thesis by blast
qed

text \<open>
  Claim C5, as the code has it. Once \<open>main\<close> has a target argument and has created the
  output directory, the pipeline runs to its end whatever the external tools answer, and
  every stage is carried out in full:
  \<^item> the run ends with \<open>Running\<close> false and a non-empty \<open>FinalReport\<close>;
  \<^item> all eleven commands are run, in the order of the stages;
  \<^item> what the run does to the outside is, in this order and nothing else: the commands
    of the first six stages with the arguments of the code, the files \<open>subdomains.txt\<close>,
    \<open>live_hosts.txt\<close>, \<open>urls.txt\<close> and \<open>vulnerabilities.json\<close> written at their places, and
    one lookup for every subdomain of the result; then, if \<open>SHODAN_API_KEY\<close> is set, a second
    lookup for every subdomain, one request to Shodan for each distinct IPv4 address these
    lookups were answered with, and \<open>enrichment.json\<close>; at the end \<open>summary.json\<close>;
  \<^item> the log holds the opening and closing lines of the run and of every stage, in the
    order of the stages;
  \<^item> every run of assetfinder, amass, hakrawler, gau, waybackurls (through bash) or ffuf
    that the trace records and that failed, with the answer it got at that moment, has its
    error line in \<open>LogLines\<close>.
\<close>

theorem pipeline_never_aborts:
  assumes "2 \<le> length args"
    and "mkdir env (pathJoin ''.'' (args ! 1 @ ''_'' @ timestamp env)) = None"
  shows "let target = args ! 1;
             outDir = pathJoin ''.'' (target @ ''_'' @ timestamp env);
             key = getenv env ''SHODAN_API_KEY''
         in \<exists>w. main_pipeline env args = Some w
          \<and> \<not> Running (scanResult w) \<and> FinalReport (scanResult w) \<noteq> []
          \<and> execs (trace w) =
             [''assetfinder'', ''amass'', ''hakrawler'', ''gau'', ''bash'', ''ffuf'',
              ''JSFinder'', ''paramspider'', ''paramwizard'', ''sqlmap'', ''dalfox'']
          \<and> (if key = [] then
                effects (trace w) =
                  scanEffects target outDir (map Hostname (Subdomains (scanResult w)))
                  @ [EvWriteFile (pathJoin outDir ''summary.json'')]
              else
                (\<exists>pre post.
                   trace w = pre @ map EvLookupIP (map Hostname (Subdomains (scanResult w))) @ post
                   \<and> effects pre = scanEffects target outDir (map Hostname (Subdomains (scanResult w)))
                   \<and> effects post =
                       map (\<lambda>ip. EvHTTPGet (''https://api.shodan.io/shodan/host/'' @ ip @ ''?key='' @ key))
                         (uniqueStrings (lookupAnswers env (length pre)
                            (map Hostname (Subdomains (scanResult w)))))
                       @ [EvWriteFile (pathJoin outDir ''enrichment.json''),
                          EvWriteFile (pathJoin outDir ''summary.json'')]))
          \<and> (\<exists>r1 r2 r3 n x r7. LogLines (scanResult w) =
               [''========== Starting Scan =========='',
                ''[*] Starting subdomain enumeration...''] @ r1
               @ [''[*] Checking live hosts...''] @ r2
               @ [''[*] Running URL scanning tools (hakrawler, gau, waybackurls)...''] @ r3
               @ [''[*] URL scan complete, found '' @ showNat n @ '' URLs'',
                  ''[*] Running ffuf fuzzing...'', x,
                  ''[*] Running JSFINDER, ParamSpider, and ParamWizard...'',
                  ''[*] Pre-vulnerability endpoint discovery complete.'',
                  ''[*] Starting vulnerability scanning...'',
                  ''[*] Vulnerability scanning complete.'']
               @ (if key = [] then []
                  else [''[*] Starting Shodan enrichment...''] @ r7 @ [''[*] Shodan enrichment complete.''])
               @ [''========== Scan Complete ==========''])
          \<and> failuresLogged env w"
proof -
  let ?target = "args ! 1"
  let ?outDir = "pathJoin ''.'' (?target @ ''_'' @ timestamp env)"
  let ?key = "getenv env ''SHODAN_API_KEY''"
  let ?w = "worker env ?target ?outDir (initScan zeroWorld)"
  have m: "main_pipeline env args = Some ?w"
    using assms by (simp add: main_pipeline_def Let_def)
  have x: "execs (trace ?w) =
         [''assetfinder'', ''amass'', ''hakrawler'', ''gau'', ''bash'', ''ffuf'',
          ''JSFinder'', ''paramspider'', ''paramwizard'', ''sqlmap'', ''dalfox'']"
    by (simp add: execs_worker execs_initScan)
  have r: "\<not> Running (scanResult ?w)" by (simp add: scanResult_worker)
  have f: "FinalReport (scanResult ?w) \<noteq> []" by (simp add: scanResult_worker)
  have e: "if ?key = [] then
                effects (trace ?w) =
                  scanEffects ?target ?outDir (map Hostname (Subdomains (scanResult ?w)))
                  @ [EvWriteFile (pathJoin ?outDir ''summary.json'')]
              else
                (\<exists>pre post.
                   trace ?w = pre @ map EvLookupIP (map Hostname (Subdomains (scanResult ?w))) @ post
                   \<and> effects pre = scanEffects ?target ?outDir (map Hostname (Subdomains (scanResult ?w)))
                   \<and> effects post =
                       map (\<lambda>ip. EvHTTPGet (''https://api.shodan.io/shodan/host/'' @ ip @ ''?key='' @ ?key))
                         (uniqueStrings (lookupAnswers env (length pre)
                            (map Hostname (Subdomains (scanResult ?w)))))
                       @ [EvWriteFile (pathJoin ?outDir ''enrichment.json''),
                          EvWriteFile (pathJoin ?outDir ''summary.json'')])"
  proof (cases "?key = []")
    case True
    show ?thesis
      using True effects_worker_nokey[OF True effects_initScan, of ?target ?outDir] by simp
  next
    case False
    show ?thesis
      using False trace_worker_key[OF False effects_initScan, of ?target ?outDir] by simp
  qed
  have l: "\<exists>r1 r2 r3 n x r7. LogLines (scanResult ?w) =
               [''========== Starting Scan =========='',
                ''[*] Starting subdomain enumeration...''] @ r1
               @ [''[*] Checking live hosts...''] @ r2
               @ [''[*] Running URL scanning tools (hakrawler, gau, waybackurls)...''] @ r3
               @ [''[*] URL scan complete, found '' @ showNat n @ '' URLs'',
                  ''[*] Running ffuf fuzzing...'', x,
                  ''[*] Running JSFINDER, ParamSpider, and ParamWizard...'',
                  ''[*] Pre-vulnerability endpoint discovery complete.'',
                  ''[*] Starting vulnerability scanning...'',
                  ''[*] Vulnerability scanning complete.'']
               @ (if ?key = [] then []
                  else [''[*] Starting Shodan enrichment...''] @ r7 @ [''[*] Shodan enrichment complete.''])
               @ [''========== Scan Complete =========='']"
    using logs_worker[of env ?target ?outDir "initScan zeroWorld"]
    by (simp add: LogLines_initScan)
  have g: "failuresLogged env ?w"
    by (rule failuresLogged_worker[OF failuresLogged_initScan])
  show ?thesis
    unfolding Let_def by (rule exI[of _ ?w]) (intro conjI m x r f e l g)
qed

lemma hosts_envPartial:
  "map Hostname (Subdomains (scanResult
      (worker envPartial ''example.com'' outDir (initScan zeroWorld)))) = [''a.example.com'']"
  unfolding Subdomains_worker
  by (simp add: EnumerateSubdomains_def RunCommand_def envPartial_def envQuiet_def Let_def
        uniqueStrings_def uniqueStep_def addSubdomain_def logErr_def
        initScan_def zeroScanResult_def NL_def)

theorem pipeline_never_aborts_witness:
  "2 \<le> length [''recon'', ''example.com'']
   \<and> mkdir envPartial (pathJoin ''.'' ([''recon'', ''example.com''] ! 1 @ ''_'' @ timestamp envPartial)) = None
   \<and> (\<exists>w. main_pipeline envPartial [''recon'', ''example.com''] = Some w
        \<and> \<not> Running (scanResult w) \<and> FinalReport (scanResult w) \<noteq> []
        \<and> execs (trace w) =
            [''assetfinder'', ''amass'', ''hakrawler'', ''gau'', ''bash'', ''ffuf'',
             ''JSFinder'', ''paramspider'', ''paramwizard'', ''sqlmap'', ''dalfox'']
        \<and> map Hostname (Subdomains (scanResult w)) = [''a.example.com'']
        \<and> (\<exists>pre post.
              trace w = pre @ [EvLookupIP ''a.example.com''] @ post
              \<and> effects pre =
                  scanEffects ''example.com'' (pathJoin ''.'' ''example.com_20060102_150405'') [''a.example.com'']
              \<and> effects post =
                  [EvHTTPGet ''https://api.shodan.io/shodan/host/192.0.2.7?key=k'',
                   EvWriteFile (pathJoin (pathJoin ''.'' ''example.com_20060102_150405'') ''enrichment.json''),
                   EvWriteFile (pathJoin (pathJoin ''.'' ''example.com_20060102_150405'') ''summary.json'')])
        \<and> (\<exists>r1 r2 r3 n x r7. LogLines (scanResult w) =
               [''========== Starting Scan =========='',
                ''[*] Starting subdomain enumeration...''] @ r1
               @ [''[*] Checking live hosts...''] @ r2
               @ [''[*] Running URL scanning tools (hakrawler, gau, waybackurls)...''] @ r3
               @ [''[*] URL scan complete, found '' @ showNat n @ '' URLs'',
                  ''[*] Running ffuf fuzzing...'', x,
                  ''[*] Running JSFINDER, ParamSpider, and ParamWizard...'',
                  ''[*] Pre-vulnerability endpoint discovery complete.'',
                  ''[*] Starting vulnerability scanning...'',
                  ''[*] Vulnerability scanning complete.'']
               @ [''[*] Starting Shodan enrichment...''] @ r7 @ [''[*] Shodan enrichment complete.'']
               @ [''========== Scan Complete ==========''])
        \<and> (\<exists>n. n < length (trace w) \<and> trace w ! n = EvExec ''assetfinder'' [''example.com'']
              \<and> snd (runCommand envPartial n ''assetfinder'' [''example.com'']) = Some ''exit status 1'')
        \<and> ''[!] assetfinder error: exit status 1'' \<in> set (LogLines (scanResult w)))"
proof -
  let ?args = "[''recon'', ''example.com'']"
  let ?O = "pathJoin ''.'' ''example.com_20060102_150405''"
  let ?W = "worker envPartial ''example.com'' ?O (initScan zeroWorld)"
  have a: "2 \<le> length ?args" by simp
  have b: "mkdir envPartial (pathJoin ''.'' (?args ! 1 @ ''_'' @ timestamp envPartial)) = None"
    by (simp add: envPartial_def envQuiet_def)
  have k: "getenv envPartial ''SHODAN_API_KEY'' = ''k''" by (simp add: envPartial_def)
  have ts: "timestamp envPartial = ''20060102_150405''" by (simp add: envPartial_def envQuiet_def)
  have m: "main_pipeline envPartial ?args = Some ?W"
    by (simp add: main_pipeline_def Let_def ts envPartial_def envQuiet_def)
  have h: "map Hostname (Subdomains (scanResult ?W)) = [''a.example.com'']"
    by (rule hosts_envPartial)
  have la: "uniqueStrings (lookupAnswers envPartial j [''a.example.com'']) = [''192.0.2.7'']" for j
    by (simp add: envPartial_def uniqueStrings_def uniqueStep_def)
  have rc: "snd (runCommand envPartial j ''assetfinder'' as) = Some ''exit status 1''" for j as
    by (simp add: envPartial_def)
  from pipeline_never_aborts[OF a b]
  have T: "\<not> Running (scanResult ?W) \<and> FinalReport (scanResult ?W) \<noteq> []
      \<and> execs (trace ?W) =
            [''assetfinder'', ''amass'', ''hakrawler'', ''gau'', ''bash'', ''ffuf'',
             ''JSFinder'', ''paramspider'', ''paramwizard'', ''sqlmap'', ''dalfox'']
      \<and> (\<exists>pre post.
              trace ?W = pre @ [EvLookupIP ''a.example.com''] @ post
              \<and> effects pre = scanEffects ''example.com'' ?O [''a.example.com'']
              \<and> effects post =
                  [EvHTTPGet ''https://api.shodan.io/shodan/host/192.0.2.7?key=k'',
                   EvWriteFile (pathJoin ?O ''enrichment.json''),
                   EvWriteFile (pathJoin ?O ''summary.json'')])
      \<and> (\<exists>r1 r2 r3 n x r7. LogLines (scanResult ?W) =
               [''========== Starting Scan =========='',
                ''[*] Starting subdomain enumeration...''] @ r1
               @ [''[*] Checking live hosts...''] @ r2
               @ [''[*] Running URL scanning tools (hakrawler, gau, waybackurls)...''] @ r3
               @ [''[*] URL scan complete, found '' @ showNat n @ '' URLs'',
                  ''[*] Running ffuf fuzzing...'', x,
                  ''[*] Running JSFINDER, ParamSpider, and ParamWizard...'',
                  ''[*] Pre-vulnerability endpoint discovery complete.'',
                  ''[*] Starting vulnerability scanning...'',
                  ''[*] Vulnerability scanning complete.'']
               @ [''[*] Starting Shodan enrichment...''] @ r7 @ [''[*] Shodan enrichment complete.'']
               @ [''========== Scan Complete ==========''])
      \<and> failuresLogged envPartial ?W"
    unfolding Let_def by (simp add: m k ts h la del: map_map lookupAnswers.simps)
  then obtain pre post where tr: "trace ?W = pre @ [EvLookupIP ''a.example.com''] @ post"
    and ep: "effects pre = scanEffects ''example.com'' ?O [''a.example.com'']"
    by blast
  have "EvExec ''assetfinder'' [''example.com''] \<in> set (effects pre)"
    unfolding ep by (simp add: scanEffects_def)
  then have "EvExec ''assetfinder'' [''example.com''] \<in> set (trace ?W)"
    unfolding tr by (simp add: effects_def)
  then obtain j where j: "j < length (trace ?W)" "trace ?W ! j = EvExec ''assetfinder'' [''example.com'']"
    unfolding in_set_conv_nth by blast
  have P: "\<exists>n. n < length (trace ?W) \<and> trace ?W ! n = EvExec ''assetfinder'' [''example.com'']
              \<and> snd (runCommand envPartial n ''assetfinder'' [''example.com'']) = Some ''exit status 1''"
    using j rc by blast
  have "errorLabel ''assetfinder'' = Some ''assetfinder''" by (simp add: errorLabel_def)
  with T j rc[of j "[''example.com'']"]
  have L: "''[!] '' @ ''assetfinder'' @ '' error: '' @ ''exit status 1'' \<in> set (LogLines (scanResult ?W))"
    unfolding failuresLogged_def by blast
  then have L': "''[!] assetfinder error: exit status 1'' \<in> set (LogLines (scanResult ?W))"
    by simp
  show ?thesis
    apply (intro conjI a b)
    apply (rule exI[of _ ?W])
    using m h T P L' apply simp
    done
qed

text \<open>
  The claim as it is written ("the failure is logged") fails for the other five tools.
  When every command fails, \<open>RunPreVulnTools\<close> runs its three tools and logs its two fixed
  lines only, and so does \<open>RunVulnerabilityScans\<close> with sqlmap and dalfox.
\<close>

theorem failures_not_logged_counterexample:
  "execs (trace (RunPreVulnTools envFail ''example.com'' ''out'' (initScan zeroWorld))) =
     [''JSFinder'', ''paramspider'', ''paramwizard'']
   \<and> LogLines (scanResult (RunPreVulnTools envFail ''example.com'' ''out'' (initScan zeroWorld))) =
     [''[*] Running JSFINDER, ParamSpider, and ParamWizard...'',
      ''[*] Pre-vulnerability endpoint discovery complete.'']
   \<and> execs (trace (RunVulnerabilityScans envFail ''example.com'' ''out'' (initScan zeroWorld))) =
     [''sqlmap'', ''dalfox'']
   \<and> LogLines (scanResult (RunVulnerabilityScans envFail ''example.com'' ''out'' (initScan zeroWorld))) =
     [''[*] Starting vulnerability scanning...'', ''[*] Vulnerability scanning complete.'']"
proof -
  have l: "LogLines (scanResult (initScan zeroWorld)) = []"
    by (simp add: initScan_def zeroScanResult_def)
  show ?thesis
    by (simp add: RunPreVulnTools_logs RunVulnerabilityScans_logs execs_RunPreVulnTools
        execs_RunVulnerabilityScans execs_initScan l)
qed

subsection \<open>The order of the last writes\<close>

lemma quiet_snapshots:
  "list_all (quietEv run rep) t \<Longrightarrow> list_all (\<lambda>s. Running s = run \<and> FinalReport s = rep) (snapshots t)"
  by (induction t rule: snapshots.induct) simp_all

lemma quiet_writesTo_Running: "list_all (quietEv run rep) t \<Longrightarrow> filter (writesTo F_Running) t = []"
proof (induction t)
  case Nil
  show ?case by simp
next
  case (Cons e t)
  then show ?case by (cases e) auto
qed

lemma falls_true_then_false: "list_all (\<lambda>b. b) bs \<Longrightarrow> falls (True # bs @ [False, False]) = 1"
  by (induction bs) simp_all

lemma filter_isWrite_allFields [simp]: "filter isWrite (map (\<lambda>f. EvRead f h) allFields) = []"
  by (simp add: allFields_def)

lemma frame_worker_stages:
  "frame (initScan zeroWorld)
     (stages env target outDir (AppendLog ''========== Starting Scan =========='' (initScan zeroWorld)))"
  by (intro frame_stages frame_AppendLog frame_refl)

lemma last_writes_worker:
  "take 3 (rev (filter isWrite (trace (worker env target outDir w0)))) =
     [EvWrite F_LogLines True, EvWrite F_FinalReport True, EvWrite F_Running True]"
proof -
  obtain s1 s2 where "trace (worker env target outDir w0) =
     trace (stages env target outDir (AppendLog ''========== Starting Scan =========='' w0)) @
     [EvLock, EvWrite F_Running True, EvWrite F_FinalReport True, EvUnlock s1,
      EvLock, EvRead F_LogLines True, EvWrite F_LogLines True, EvUnlock s2] @
     map (\<lambda>f. EvRead f False) allFields @ [EvWriteFile (pathJoin outDir ''summary.json'')]"
    using trace_worker[of env target outDir w0] by blast
  then show ?thesis by simp
qed

lemma last_snapshot_worker:
  "last (snapshots (trace (worker env target outDir w0))) = scanResult (worker env target outDir w0)"
proof -
  obtain s1 s2 where "trace (worker env target outDir w0) =
     trace (stages env target outDir (AppendLog ''========== Starting Scan =========='' w0)) @
     [EvLock, EvWrite F_Running True, EvWrite F_FinalReport True, EvUnlock s1,
      EvLock, EvRead F_LogLines True, EvWrite F_LogLines True, EvUnlock s2] @
     map (\<lambda>f. EvRead f False) allFields @ [EvWriteFile (pathJoin outDir ''summary.json'')]"
    and "s2 = scanResult (worker env target outDir w0)"
    using trace_worker[of env target outDir w0] by blast
  then show ?thesis by (simp add: allFields_def)
qed

text \<open>
  Claim C4, as the code has it. In every run of the pipeline, from the initialisation in
  \<open>main\<close> on: the states released by the unlocks show \<open>Running\<close> go from true to false
  exactly once; \<open>Running\<close> is written twice, by the initialisation and by the
  finalization, both under the lock; the last three writes of the run are the write of
  \<open>Running\<close>, the write of \<open>FinalReport\<close> in the same critical section, and the append of
  the closing log line, so the last write is not the one of \<open>Running\<close>; every released
  state with \<open>Running\<close> false has a non-empty \<open>FinalReport\<close>, and so has the final state.
\<close>

theorem Running_falls_once:
  "falls (map Running (snapshots (trace (worker env target outDir (initScan zeroWorld))))) = 1
   \<and> filter (writesTo F_Running) (trace (worker env target outDir (initScan zeroWorld))) =
       [EvWrite F_Running True, EvWrite F_Running True]
   \<and> suffix [EvWrite F_Running True, EvWrite F_FinalReport True, EvWrite F_LogLines True]
       (filter isWrite (trace (worker env target outDir (initScan zeroWorld))))
   \<and> list_all (\<lambda>s. Running s \<or> FinalReport s \<noteq> [])
       (snapshots (trace (worker env target outDir (initScan zeroWorld))))
   \<and> \<not> Running (scanResult (worker env target outDir (initScan zeroWorld)))
   \<and> FinalReport (scanResult (worker env target outDir (initScan zeroWorld))) \<noteq> []"
proof -
  let ?wi = "initScan zeroWorld"
  let ?ws = "stages env target outDir (AppendLog ''========== Starting Scan =========='' ?wi)"
  let ?wf = "worker env target outDir ?wi"
  have r0: "Running (scanResult ?wi)" and f0: "FinalReport (scanResult ?wi) = []"
    by (simp_all add: initScan_def zeroScanResult_def)
  obtain t where t: "trace ?ws = trace ?wi @ t" and q: "list_all (quietEv True []) t"
    using frame_worker_stages[of env target outDir] r0 f0 unfolding frame_def by auto
  obtain s1 s2 where tw: "trace ?wf = trace ?ws @
     [EvLock, EvWrite F_Running True, EvWrite F_FinalReport True, EvUnlock s1,
      EvLock, EvRead F_LogLines True, EvWrite F_LogLines True, EvUnlock s2] @
     map (\<lambda>f. EvRead f False) allFields @ [EvWriteFile (pathJoin outDir ''summary.json'')]"
    and s1: "\<not> Running s1" "FinalReport s1 \<noteq> []" and s2: "s2 = scanResult ?wf"
    using trace_worker[of env target outDir ?wi] by blast
  have res: "\<not> Running (scanResult ?wf)" "FinalReport (scanResult ?wf) \<noteq> []"
    by (simp_all add: scanResult_worker)
  have t0: "trace ?wi = [EvLock] @ map (\<lambda>f. EvWrite f True) allFields @ [EvUnlock (scanResult ?wi)]"
    by (simp add: initScan_def zeroWorld_def)
  have sn0: "snapshots (trace ?wi) = [scanResult ?wi]"
    unfolding t0 by (simp add: allFields_def)
  have snt: "list_all (\<lambda>s. Running s = True \<and> FinalReport s = []) (snapshots t)"
    using quiet_snapshots[OF q] .
  have sn: "snapshots (trace ?wf) = scanResult ?wi # snapshots t @ [s1, s2]"
    unfolding tw t by (simp add: sn0 allFields_def)
  have allT: "list_all (\<lambda>b. b) (map Running (snapshots t))"
    using snt by (simp add: list_all_iff)
  have c1: "falls (map Running (snapshots (trace ?wf))) = 1"
    unfolding sn using falls_true_then_false[OF allT] r0 s1(1) s2 res(1) by simp
  have wr0: "filter (writesTo F_Running) (trace ?wi) = [EvWrite F_Running True]"
    unfolding t0 by (simp add: allFields_def)
  have c2: "filter (writesTo F_Running) (trace ?wf) = [EvWrite F_Running True, EvWrite F_Running True]"
    unfolding tw t by (simp add: wr0 quiet_writesTo_Running[OF q] allFields_def)
  have "filter isWrite (trace ?wf) = filter isWrite (trace ?ws) @
      [EvWrite F_Running True, EvWrite F_FinalReport True, EvWrite F_LogLines True]"
    unfolding tw by simp
  then have c3: "suffix [EvWrite F_Running True, EvWrite F_FinalReport True, EvWrite F_LogLines True]
       (filter isWrite (trace ?wf))"
    by (simp add: suffix_def)
  have c4: "list_all (\<lambda>s. Running s \<or> FinalReport s \<noteq> []) (snapshots (trace ?wf))"
    unfolding sn using snt r0 s1(2) s2 res(2) by (simp add: list_all_iff)
  show ?thesis using c1 c2 c3 c4 res by blast
qed


theorem Running_falls_once_witness:
  "falls (map Running (snapshots (trace (worker envQuiet ''example.com'' ''out'' (initScan zeroWorld))))) = 1
   \<and> list_all (\<lambda>s. Running s \<or> FinalReport s \<noteq> [])
       (snapshots (trace (worker envQuiet ''example.com'' ''out'' (initScan zeroWorld))))
   \<and> \<not> Running (last (snapshots (trace (worker envQuiet ''example.com'' ''out'' (initScan zeroWorld)))))
   \<and> FinalReport (last (snapshots (trace (worker envQuiet ''example.com'' ''out'' (initScan zeroWorld))))) =
       ''Final report for example.com generated at Mon, 02 Jan 2006 15:04:05 UTC''"
proof -
  note h = Running_falls_once[of envQuiet "''example.com''" "''out''"]
  have f: "FinalReport (scanResult (worker envQuiet ''example.com'' ''out'' (initScan zeroWorld))) =
       ''Final report for example.com generated at Mon, 02 Jan 2006 15:04:05 UTC''"
    by (simp add: scanResult_worker envQuiet_def)
  show ?thesis
    unfolding last_snapshot_worker using h f by blast
qed

text \<open>
  The claim as it is written ("the false transition is the last write of the run") fails:
  read backwards, the writes of the run end with the log append, the write of
  \<open>FinalReport\<close>, and only then the write of \<open>Running\<close>.
\<close>

theorem Running_not_last_write_counterexample:
  "take 3 (rev (filter isWrite (trace (worker envQuiet ''example.com'' ''out'' (initScan zeroWorld))))) =
     [EvWrite F_LogLines True, EvWrite F_FinalReport True, EvWrite F_Running True]"
  by (rule last_writes_worker)

end
